theory Spec2Isabelle
  imports Main
begin

section \<open>Strings and numbers of the host language\<close>

text \<open>
  The bot is one JavaScript file, \<^verbatim>\<open>bot.js\<close>. A JavaScript string is a sequence of
  16-bit code units and \<^verbatim>\<open>length\<close>, \<^verbatim>\<open>substring\<close> count code units; here a string is
  a \<^typ>\<open>string\<close> and every \<^typ>\<open>char\<close> stands for one code unit. The values of HTTP
  headers are byte strings, so nothing is lost for them. An absent value is \<open>None\<close>:
  a header or a field of a payload that is missing, and the \<^verbatim>\<open>null\<close> that \<^verbatim>\<open>lastEventId\<close>
  starts from. (\<^verbatim>\<open>lastEventId\<close> is \<^verbatim>\<open>null\<close> or a string here; the \<^verbatim>\<open>undefined\<close> that
  \<^verbatim>\<open>loadLastEventId\<close> gives for a state file without the key is a third value, which
  \<^verbatim>\<open>=== null\<close> tells from \<^verbatim>\<open>null\<close>, and is not modelled.)

  A number is a double. \<open>Num v\<close> is the integer \<open>v\<close>, exact up to \<open>2^53\<close> in absolute
  value; \<^verbatim>\<open>NaN\<close> is a value of its own; \<open>Large up\<close> is the double that an integer
  result beyond \<open>2^53\<close> rounds to, above (\<open>up\<close>, infinity included) or below. The
  code only compares such a double with a reading of the clock and tests whether it is
  a date, and every double beyond \<open>2^53\<close> answers both in the same way, so its digits
  are left out. A reading of the clock is a time value, below \<open>2^53\<close>.
\<close>

datatype jsnum = NaN | Num int | Large bool

definition number :: "int \<Rightarrow> jsnum" where
  "number v = (if \<bar>v\<bar> \<le> 9007199254740992 then Num v else Large (0 < v))"

text \<open>\<^verbatim>\<open>Date.now() < x\<close>, and \<^verbatim>\<open>x * 1000\<close>.\<close>

fun earlier :: "int \<Rightarrow> jsnum \<Rightarrow> bool" where
  "earlier now (Num v) = (now < v)"
| "earlier now (Large up) = up"
| "earlier now NaN = False"

fun times1000 :: "jsnum \<Rightarrow> jsnum" where
  "times1000 (Num a) = number (a * 1000)"
| "times1000 (Large up) = Large up"
| "times1000 NaN = NaN"

text \<open>A string is truthy when it is present and not empty.\<close>

fun truthy :: "string option \<Rightarrow> bool" where
  "truthy None = False"
| "truthy (Some s) = (s \<noteq> [])"

text \<open>
  \<^verbatim>\<open>String.prototype.substring(start, end)\<close>: both indices are clamped to the string,
  and swapped when the first is the larger.
\<close>

definition clamp_index :: "string \<Rightarrow> int \<Rightarrow> nat" where
  "clamp_index s i = min (nat i) (length s)"

definition substring :: "string \<Rightarrow> int \<Rightarrow> int \<Rightarrow> string" where
  "substring s start end =
     (let a = clamp_index s start; b = clamp_index s end;
          from = min a b; to = max a b
      in take (to - from) (drop from s))"

text \<open>
  \<^verbatim>\<open>String.prototype.split(',')\<close>: the pieces between the commas, empty pieces
  included; the empty string gives one empty piece.
\<close>

fun split :: "char \<Rightarrow> string \<Rightarrow> string list" where
  "split sep [] = [[]]"
| "split sep (c # cs) =
     (if c = sep then [] # split sep cs
      else (case split sep cs of
              [] \<Rightarrow> [[c]]
            | w # ws \<Rightarrow> (c # w) # ws))"

text \<open>
  \<^verbatim>\<open>parseInt(string)\<close> with no radix: leading white space is dropped, then an optional
  sign, then an optional \<^verbatim>\<open>0x\<close> prefix that selects radix 16; the longest prefix of
  digits of the radix is the value, as a double, and \<^verbatim>\<open>NaN\<close> when that prefix is empty.
\<close>

definition is_white :: "char \<Rightarrow> bool" where
  "is_white c = (of_char c \<in> {9, 10, 11, 12, 13, 32, 160 :: nat})"

definition digit_value :: "char \<Rightarrow> nat option" where
  "digit_value c =
     (let n = (of_char c :: nat) in
      if 48 \<le> n \<and> n \<le> 57 then Some (n - 48)
      else if 97 \<le> n \<and> n \<le> 122 then Some (n - 87)
      else if 65 \<le> n \<and> n \<le> 90 then Some (n - 55)
      else None)"

definition is_digit :: "nat \<Rightarrow> char \<Rightarrow> bool" where
  "is_digit radix c = (case digit_value c of None \<Rightarrow> False | Some d \<Rightarrow> d < radix)"

fun digits_value :: "nat \<Rightarrow> int \<Rightarrow> string \<Rightarrow> int" where
  "digits_value radix acc [] = acc"
| "digits_value radix acc (c # cs) =
     digits_value radix
       (acc * int radix + (case digit_value c of None \<Rightarrow> 0 | Some d \<Rightarrow> int d)) cs"

definition parseInt :: "string \<Rightarrow> jsnum" where
  "parseInt str =
     (let s1 = dropWhile is_white str;
          sign = (case s1 of c # _ \<Rightarrow> if c = CHR ''-'' then - 1 else (1::int) | [] \<Rightarrow> 1);
          s2 = (case s1 of c # r \<Rightarrow> if c = CHR ''-'' \<or> c = CHR ''+'' then r else s1 | [] \<Rightarrow> s1);
          hex = (case s2 of a # b # _ \<Rightarrow> a = CHR ''0'' \<and> (b = CHR ''x'' \<or> b = CHR ''X'') | _ \<Rightarrow> False);
          radix = (if hex then 16 else 10);
          s3 = (if hex then drop 2 s2 else s2);
          z = takeWhile (is_digit radix) s3
      in if z = [] then NaN else number (sign * digits_value radix 0 z))"

text \<open>
  \<^verbatim>\<open>new Date(v).toISOString()\<close> raises a \<^verbatim>\<open>RangeError\<close> unless \<^verbatim>\<open>v\<close> is a time value:
  a number of at most 8.64e15 in absolute value.
\<close>

fun valid_date :: "jsnum \<Rightarrow> bool" where
  "valid_date NaN = False"
| "valid_date (Large up) = False"
| "valid_date (Num v) = (\<bar>v\<bar> \<le> 8640000000000000)"

section \<open>Configuration\<close>

text \<open>
  \<^verbatim>\<open>
  EVENT_TYPES: (process.env.EVENT_TYPES ||
      'PushEvent,CreateEvent,ForkEvent,ReleaseEvent,IssuesEvent,IssueCommentEvent,PullRequestEvent')
      .split(','),
  \<close>
  An environment variable is a string or absent; an empty one is falsy and gives the
  default too. The other settings do not enter the polling cycle, except the channel
  identifier, whose lookup is an input of the cycle below.
\<close>

definition DEFAULT_EVENT_TYPES :: string where
  "DEFAULT_EVENT_TYPES =
     ''PushEvent,CreateEvent,ForkEvent,ReleaseEvent,IssuesEvent,IssueCommentEvent,PullRequestEvent''"

definition EVENT_TYPES :: "string option \<Rightarrow> string list" where
  "EVENT_TYPES env_EVENT_TYPES =
     split (CHR '','')
       (case env_EVENT_TYPES of
          None \<Rightarrow> DEFAULT_EVENT_TYPES
        | Some v \<Rightarrow> if v = [] then DEFAULT_EVENT_TYPES else v)"

section \<open>Feed items, transport and effects\<close>

text \<open>
  A feed item as the events API returns it, with the fields the cycle branches on: its
  id, its type, and for a push the inline commit list (\<^verbatim>\<open>payload.commits || []\<close>) and
  the two ends of the pushed range. The fields that only fill in the text of the embed
  (actor, timestamp, titles, links) are left out: the text of a message is not
  modelled, and a send is recorded with the item it renders and the commit list
  resolved for it. Items are well formed, so that building the embed does not raise.
\<close>

record commit =
  sha :: string
  message :: string

record event =
  event_id :: string
  event_type :: string
  repo_name :: string
  commits :: "commit list"
  before :: "string option"
  head :: "string option"

text \<open>
  One call of \<^verbatim>\<open>fetch\<close>: the promise rejects (no response), or a response arrives with
  its status, its \<^verbatim>\<open>x-ratelimit-reset\<close> header, and its body as \<^verbatim>\<open>response.json()\<close>
  parses it (\<open>None\<close> when parsing rejects). The body of a successful response is a
  value of the expected shape, never the JSON literal \<^verbatim>\<open>null\<close>. The call also fixes
  the two readings of the clock the code takes: \<^verbatim>\<open>Date.now()\<close> at the gate, and
  \<^verbatim>\<open>Date.now()\<close> when a throttled response is handled.
\<close>

record 'a response =
  status :: nat
  reset :: "string option"
  body :: "'a option"

datatype 'a outcome = Rejected | Responded "'a response"

record 'a call =
  now_gate :: int
  answer :: "'a outcome"
  now_reply :: int

definition ok :: "'a response \<Rightarrow> bool" where
  "ok r = (200 \<le> status r \<and> status r \<le> 299)"

datatype error =
    NetworkError
  | GitHubApiError nat
  | InvalidTimeValue
  | JsonError
  | SendError

text \<open>
  What the process does to the outside, in order: lines written by \<^verbatim>\<open>log\<close> (those of
  \<^verbatim>\<open>debug\<close> are left out), messages handed to \<^verbatim>\<open>channel.send\<close>, calls of \<^verbatim>\<open>sleep\<close>,
  and calls of \<^verbatim>\<open>saveLastEventId\<close>.
\<close>

datatype logline =
    RateLimitedUntil jsnum
  | ChannelNotFound
  | PollError error
  | Posted string string
  | ErrorPosting string error

datatype action =
    Log logline
  | Send event "commit list"
  | Sleep nat
  | Save string

text \<open>The two process-wide variables.\<close>

record state =
  lastEventId :: "string option"
  rateLimitReset :: jsnum

section \<open>The feed fetcher and its rate-limit gate\<close>

text \<open>
  \<^verbatim>\<open>
  async function fetchGitHub(url) {
      if (Date.now() < rateLimitReset) { ...; return null; }
      ...
      const response = await fetch(url, { headers });
      ...
      if (response.status === 403 || response.status === 429) {
          const reset = response.headers.get('x-ratelimit-reset');
          rateLimitReset = reset ? parseInt(reset) * 1000 : Date.now() + 60000;
          log(`Rate limited until ${new Date(rateLimitReset).toISOString()}`);
          return null;
      }
      if (!response.ok) { throw new Error(`GitHub API error: ${response.status}`); }
      return response.json();
  }
  \<close>
  The result is the value returned or the error raised, the new \<^verbatim>\<open>rateLimitReset\<close>,
  and what was logged. \<open>Inr None\<close> is the \<^verbatim>\<open>null\<close> result.
\<close>

definition throttled :: "'a response \<Rightarrow> bool" where
  "throttled r = (status r = 403 \<or> status r = 429)"

definition reset_time :: "'a response \<Rightarrow> int \<Rightarrow> jsnum" where
  "reset_time r now =
     (case reset r of
        None \<Rightarrow> number (now + 60000)
      | Some hint \<Rightarrow> if hint = [] then number (now + 60000) else times1000 (parseInt hint))"

definition fetchGitHub :: "jsnum \<Rightarrow> 'a call \<Rightarrow> (error + 'a option) \<times> jsnum \<times> action list" where
  "fetchGitHub rl c =
     (if earlier (now_gate c) rl then (Inr None, rl, [])
      else
        (case answer c of
           Rejected \<Rightarrow> (Inl NetworkError, rl, [])
         | Responded r \<Rightarrow>
             if throttled r then
               (let rl' = reset_time r (now_reply c)
                in if valid_date rl' then (Inr None, rl', [Log (RateLimitedUntil rl')])
                   else (Inl InvalidTimeValue, rl', []))
             else if \<not> ok r then (Inl (GitHubApiError (status r)), rl, [])
             else
               (case body r of
                  None \<Rightarrow> (Inl JsonError, rl, [])
                | Some b \<Rightarrow> (Inr (Some b), rl, []))))"

definition fetchEvents :: "jsnum \<Rightarrow> event list call \<Rightarrow> (error + event list option) \<times> jsnum \<times> action list" where
  "fetchEvents rl c = fetchGitHub rl c"

text \<open>
  \<^verbatim>\<open>
  async function fetchCommits(repoName, before, head) {
      const data = await fetchGitHub(`.../repos/${repoName}/compare/${before}...${head}`);
      if (!data) return [];
      return (data.commits || []).map(c => ({ sha: c.sha, message: c.commit.message }));
  }
  \<close>
  The body of a compare response is its \<^verbatim>\<open>commits\<close> field, when it has one.
\<close>

definition fetchCommits :: "jsnum \<Rightarrow> commit list option call \<Rightarrow> (error + commit list) \<times> jsnum \<times> action list" where
  "fetchCommits rl c =
     (case fetchGitHub rl c of
        (Inl err, rl', t) \<Rightarrow> (Inl err, rl', t)
      | (Inr None, rl', t) \<Rightarrow> (Inr [], rl', t)
      | (Inr (Some data), rl', t) \<Rightarrow>
          (Inr (case data of None \<Rightarrow> [] | Some cs \<Rightarrow> cs), rl', t))"

section \<open>Rendering and sending one item\<close>

text \<open>
  \<^verbatim>\<open>postEvent\<close> builds the embed inside \<^verbatim>\<open>try { switch (type) {...} await channel.send(...);
  log(`Posted ...`) } catch (err) { log(`Error posting ...`) }\<close>. Only the push case
  calls out: \<^verbatim>\<open>if (commits.length === 0 && payload.before && payload.head) commits = await
  fetchCommits(...)\<close>. A type with no case leaves through \<^verbatim>\<open>default: return\<close>. One call
  of \<^verbatim>\<open>postEvent\<close> makes at most one compare request and at most one send; their
  outcomes are its inputs.
\<close>

record post_env =
  compare :: "commit list option call"
  delivered :: bool

definition RENDERED_TYPES :: "string list" where
  "RENDERED_TYPES =
     [''PushEvent'', ''CreateEvent'', ''ForkEvent'', ''WatchEvent'', ''ReleaseEvent'',
      ''IssuesEvent'', ''IssueCommentEvent'', ''PullRequestEvent'']"

definition send :: "post_env \<Rightarrow> event \<Rightarrow> commit list \<Rightarrow> action list" where
  "send pe ev cs =
     [Send ev cs,
      Log (if delivered pe then Posted (event_type ev) (repo_name ev)
           else ErrorPosting (event_type ev) SendError)]"

definition needs_backfill :: "event \<Rightarrow> bool" where
  "needs_backfill ev = (commits ev = [] \<and> truthy (before ev) \<and> truthy (head ev))"

definition postEvent :: "jsnum \<Rightarrow> post_env \<Rightarrow> event \<Rightarrow> jsnum \<times> action list" where
  "postEvent rl pe ev =
     (if event_type ev = ''PushEvent'' then
        (if needs_backfill ev then
           (case fetchCommits rl (compare pe) of
              (Inl err, rl', t) \<Rightarrow> (rl', t @ [Log (ErrorPosting (event_type ev) err)])
            | (Inr cs, rl', t) \<Rightarrow> (rl', t @ send pe ev cs))
         else (rl, send pe ev (commits ev)))
      else if event_type ev \<in> set RENDERED_TYPES then (rl, send pe ev [])
      else (rl, []))"

section \<open>One polling cycle\<close>

text \<open>
  \<^verbatim>\<open>
  const newEvents = [];
  for (const event of events) {
      if (event.id === lastEventId) break;
      if (CONFIG.EVENT_TYPES.includes(event.type)) newEvents.push(event);
  }
  \<close>
\<close>

fun collect :: "string list \<Rightarrow> string option \<Rightarrow> event list \<Rightarrow> event list" where
  "collect tys stored [] = []"
| "collect tys stored (e # es) =
     (if Some (event_id e) = stored then []
      else if event_type e \<in> set tys then e # collect tys stored es
      else collect tys stored es)"

text \<open>
  \<^verbatim>\<open>for (const event of newEvents.reverse()) { await postEvent(channel, event); await
  sleep(500); }\<close>, with the inputs of the \<open>k\<close>-th call of \<^verbatim>\<open>postEvent\<close> in the cycle.
\<close>

fun post_each :: "(nat \<Rightarrow> post_env) \<Rightarrow> nat \<Rightarrow> jsnum \<Rightarrow> event list \<Rightarrow> jsnum \<times> action list" where
  "post_each pes k rl [] = (rl, [])"
| "post_each pes k rl (e # es) =
     (case postEvent rl (pes k) e of
        (rl1, t1) \<Rightarrow>
          (case post_each pes (Suc k) rl1 es of
             (rl2, t2) \<Rightarrow> (rl2, t1 @ [Sleep 500] @ t2)))"

text \<open>
  The inputs of a cycle: the call that fetches the feed, whether
  \<^verbatim>\<open>client.channels.cache.get(CONFIG.CHANNEL_ID)\<close> finds the channel, and the inputs of
  the calls of \<^verbatim>\<open>postEvent\<close>.
\<close>

record cycle_env =
  feed :: "event list call"
  channel :: bool
  posts :: "nat \<Rightarrow> post_env"

definition dispatch :: "(nat \<Rightarrow> post_env) \<Rightarrow> state \<Rightarrow> jsnum \<Rightarrow> event list \<Rightarrow> jsnum \<times> action list" where
  "dispatch pes s rl newEvents =
     (if newEvents \<noteq> [] then
        (if lastEventId s = None then postEvent rl (pes 0) (hd newEvents)
         else post_each pes 0 rl (rev newEvents))
      else (rl, []))"

definition pollGitHub :: "string list \<Rightarrow> cycle_env \<Rightarrow> state \<Rightarrow> state \<times> action list" where
  "pollGitHub tys env s =
     (case fetchEvents (rateLimitReset s) (feed env) of
        (Inl err, rl, t) \<Rightarrow> (s\<lparr>rateLimitReset := rl\<rparr>, t @ [Log (PollError err)])
      | (Inr None, rl, t) \<Rightarrow> (s\<lparr>rateLimitReset := rl\<rparr>, t)
      | (Inr (Some events), rl, t) \<Rightarrow>
          if \<not> channel env then (s\<lparr>rateLimitReset := rl\<rparr>, t @ [Log ChannelNotFound])
          else
            (case dispatch (posts env) s rl (collect tys (lastEventId s) events) of
               (rl', t') \<Rightarrow>
                 (case events of
                    [] \<Rightarrow> (s\<lparr>rateLimitReset := rl'\<rparr>, t @ t')
                  | e # _ \<Rightarrow>
                      (\<lparr>lastEventId = Some (event_id e), rateLimitReset = rl'\<rparr>,
                       t @ t' @ [Save (event_id e)]))))"

text \<open>
  Cycles run one after the other, each from the state the one before left. Cycles that
  overlap because one outlasts the timer are outside this model.
\<close>

fun run :: "string list \<Rightarrow> cycle_env list \<Rightarrow> state \<Rightarrow> state list" where
  "run tys [] s = []"
| "run tys (env # envs) s =
     (let s' = fst (pollGitHub tys env s) in s' # run tys envs s')"

text \<open>
  Readings of a trace: the items whose message was handed to the channel, the same with
  the pauses between them (\<open>Inr\<close> the milliseconds), and the ids saved.
\<close>

fun sent :: "action list \<Rightarrow> event list" where
  "sent [] = []"
| "sent (Send ev cs # t) = ev # sent t"
| "sent (_ # t) = sent t"

fun paced :: "action list \<Rightarrow> (event + nat) list" where
  "paced [] = []"
| "paced (Send ev cs # t) = Inl ev # paced t"
| "paced (Sleep ms # t) = Inr ms # paced t"
| "paced (_ # t) = paced t"

fun saved :: "action list \<Rightarrow> string list" where
  "saved [] = []"
| "saved (Save i # t) = i # saved t"
| "saved (_ # t) = saved t"

section \<open>Truncation\<close>

text \<open>
  \<^verbatim>\<open>
  function truncate(str, len) {
      if (!str) return '';
      if (str.length <= len) return str;
      return str.substring(0, len - 3) + '...';
  }
  \<close>
  The limit is an integer: the callers pass 50, 100, 150 and 200.
\<close>

definition truncate :: "string option \<Rightarrow> int \<Rightarrow> string" where
  "truncate str len =
     (case str of
        None \<Rightarrow> []
      | Some s \<Rightarrow>
          if s = [] then []
          else if int (length s) \<le> len then s
          else substring s 0 (len - 3) @ ''...'')"

section \<open>Conditions on the inputs\<close>

text \<open>
  The statements below need names for a few conditions on what the network answers.
  None of these is code of the bot; the lemmas that follow tie each to the functions
  above.

  A call fails hard when, once past the gate, it ends in an exception: no response, a
  throttling status whose reset time is not a date, any other status outside 200 to
  299, or a body that does not parse.
\<close>

definition hard_failure :: "'a call \<Rightarrow> bool" where
  "hard_failure c =
     (case answer c of
        Rejected \<Rightarrow> True
      | Responded r \<Rightarrow>
          if throttled r then \<not> valid_date (reset_time r (now_reply c))
          else if ok r then body r = None else True)"

definition suppressed :: "jsnum \<Rightarrow> 'a call \<Rightarrow> bool" where
  "suppressed rl c = earlier (now_gate c) rl"

definition raises :: "jsnum \<Rightarrow> 'a call \<Rightarrow> bool" where
  "raises rl c = (\<not> suppressed rl c \<and> hard_failure c)"

text \<open>
  An item is rendered when \<^verbatim>\<open>postEvent\<close> gets as far as \<^verbatim>\<open>channel.send\<close>: its type has a
  case in the switch, and the compare request, if the item needs one, does not raise.
\<close>

definition renders :: "jsnum \<Rightarrow> post_env \<Rightarrow> event \<Rightarrow> bool" where
  "renders rl pe ev =
     (event_type ev \<in> set RENDERED_TYPES \<and>
      (if event_type ev = ''PushEvent'' \<and> needs_backfill ev then \<not> raises rl (compare pe)
       else True))"

text \<open>
  The list a cycle's response carries, and the ids of the first items of the non-empty
  lists carried by the responses of successive cycles.
\<close>

definition remote :: "cycle_env \<Rightarrow> event list" where
  "remote env =
     (case answer (feed env) of
        Rejected \<Rightarrow> []
      | Responded r \<Rightarrow> (case body r of None \<Rightarrow> [] | Some events \<Rightarrow> events))"

fun heads :: "cycle_env list \<Rightarrow> string list" where
  "heads [] = []"
| "heads (env # envs) =
     (case remote env of
        [] \<Rightarrow> heads envs
      | e # _ \<Rightarrow> event_id e # heads envs)"

section \<open>Sample inputs\<close>

text \<open>
  Concrete items, responses and cycles, on which the statements are tried. \<open>item\<close> is
  an item with no inline commits and no range; \<open>push_range\<close> is a push whose commits
  must be fetched; \<open>replied\<close> is a response with the given status, reset header and
  body, taken at time 1000 and handled at time 1001.
\<close>

definition item :: "string \<Rightarrow> string \<Rightarrow> event" where
  "item i ty =
     \<lparr>event_id = i, event_type = ty, repo_name = ''octo/repo'', commits = [],
      before = None, head = None\<rparr>"

definition push_range :: "string \<Rightarrow> event" where
  "push_range i =
     \<lparr>event_id = i, event_type = ''PushEvent'', repo_name = ''octo/repo'', commits = [],
      before = Some ''a1b2c3d'', head = Some ''e4f5a6b''\<rparr>"

definition replied :: "nat \<Rightarrow> string option \<Rightarrow> 'a option \<Rightarrow> 'a call" where
  "replied st hint b =
     \<lparr>now_gate = 1000, answer = Responded \<lparr>status = st, reset = hint, body = b\<rparr>,
      now_reply = 1001\<rparr>"

definition plain_post :: post_env where
  "plain_post = \<lparr>compare = replied 200 None (Some (Some [])), delivered = True\<rparr>"

definition failing_post :: post_env where
  "failing_post = \<lparr>compare = replied 500 None None, delivered = True\<rparr>"

definition cycle_of :: "event list \<Rightarrow> bool \<Rightarrow> cycle_env" where
  "cycle_of events found =
     \<lparr>feed = replied 200 None (Some events), channel = found, posts = (\<lambda>k. plain_post)\<rparr>"

definition seen :: "string \<Rightarrow> state" where
  "seen i = \<lparr>lastEventId = Some i, rateLimitReset = Num 0\<rparr>"

definition cold :: state where
  "cold = \<lparr>lastEventId = None, rateLimitReset = Num 0\<rparr>"

text \<open>
  Two cycles with a failing request: in \<open>backfill_fails\<close> the feed arrives and the
  compare request of the first item posted is answered with status 500; in
  \<open>feed_fails\<close> the feed request itself is answered with status 500; in
  \<open>throttled_soon\<close> it is answered with status 429 and a reset header that is not a
  number.
\<close>

definition backfill_fails :: cycle_env where
  "backfill_fails =
     \<lparr>feed = replied 200 None (Some [item ''5'' ''ForkEvent'', push_range ''4'', item ''3'' ''PushEvent'']),
      channel = True,
      posts = (\<lambda>k. if k = 0 then failing_post else plain_post)\<rparr>"

definition feed_fails :: cycle_env where
  "feed_fails = \<lparr>feed = replied 500 None None, channel = True, posts = (\<lambda>k. plain_post)\<rparr>"

definition throttled_soon :: cycle_env where
  "throttled_soon =
     \<lparr>feed = replied 429 (Some ''soon'') None, channel = True, posts = (\<lambda>k. plain_post)\<rparr>"

section \<open>The fetcher, case by case\<close>

lemma fetchGitHub_suppressed:
  "suppressed rl c \<Longrightarrow> fetchGitHub rl c = (Inr None, rl, [])"
  by (simp add: fetchGitHub_def suppressed_def)

lemma fetchGitHub_throttled:
  "\<not> suppressed rl c \<Longrightarrow> answer c = Responded r \<Longrightarrow> throttled r \<Longrightarrow>
   valid_date (reset_time r (now_reply c)) \<Longrightarrow>
   fetchGitHub rl c =
     (Inr None, reset_time r (now_reply c), [Log (RateLimitedUntil (reset_time r (now_reply c)))])"
  by (simp add: fetchGitHub_def suppressed_def Let_def)

lemma fetchGitHub_status:
  "\<not> suppressed rl c \<Longrightarrow> answer c = Responded r \<Longrightarrow> \<not> throttled r \<Longrightarrow> \<not> ok r \<Longrightarrow>
   fetchGitHub rl c = (Inl (GitHubApiError (status r)), rl, [])"
  by (simp add: fetchGitHub_def suppressed_def)

lemma fetchGitHub_raises:
  "(\<exists>err. fst (fetchGitHub rl c) = Inl err) = raises rl c"
  by (auto simp: fetchGitHub_def raises_def suppressed_def hard_failure_def Let_def
      split: outcome.splits jsnum.splits option.splits if_splits)

lemma fetchGitHub_list:
  "fetchGitHub rl c = (Inr (Some b), rl', t) \<Longrightarrow> rl' = rl \<and> t = []"
  by (auto simp: fetchGitHub_def Let_def
      split: outcome.splits jsnum.splits option.splits if_splits)

lemma fetchGitHub_body:
  "fst (fetchGitHub rl c) = Inr (Some b) \<Longrightarrow> \<exists>r. answer c = Responded r \<and> body r = Some b"
  by (auto simp: fetchGitHub_def Let_def
      split: outcome.splits jsnum.splits option.splits if_splits)

lemma fetchGitHub_null:
  "fst (fetchGitHub rl c) = Inr None \<Longrightarrow>
   suppressed rl c \<or> (\<exists>r. answer c = Responded r \<and> throttled r)"
  by (auto simp: fetchGitHub_def suppressed_def Let_def
      split: outcome.splits jsnum.splits option.splits if_splits)

lemma fetchCommits_raises:
  "(\<exists>err. fst (fetchCommits rl c) = Inl err) = raises rl c"
  unfolding fetchGitHub_raises [symmetric]
  by (cases "fetchGitHub rl c") (auto simp: fetchCommits_def split: sum.splits option.splits)

lemma sent_append: "sent (t @ u) = sent t @ sent u"
  by (induction t rule: sent.induct) simp_all

lemma paced_append: "paced (t @ u) = paced t @ paced u"
  by (induction t rule: paced.induct) simp_all

lemma saved_append: "saved (t @ u) = saved t @ saved u"
  by (induction t rule: saved.induct) simp_all

lemma fetchGitHub_quiet:
  "sent (snd (snd (fetchGitHub rl c))) = [] \<and> paced (snd (snd (fetchGitHub rl c))) = [] \<and>
   saved (snd (snd (fetchGitHub rl c))) = []"
  by (auto simp: fetchGitHub_def Let_def
      split: outcome.splits jsnum.splits option.splits if_splits)

lemma fetchCommits_quiet:
  "sent (snd (snd (fetchCommits rl c))) = [] \<and> paced (snd (snd (fetchCommits rl c))) = [] \<and>
   saved (snd (snd (fetchCommits rl c))) = []"
  using fetchGitHub_quiet [of rl c]
  by (cases "fetchGitHub rl c") (auto simp: fetchCommits_def split: sum.splits option.splits)

lemma postEvent_sent:
  "sent (snd (postEvent rl pe ev)) = (if renders rl pe ev then [ev] else [])"
  using fetchCommits_quiet [of rl "compare pe"] fetchCommits_raises [of rl "compare pe"]
  by (cases "fetchCommits rl (compare pe)")
     (auto simp: postEvent_def renders_def send_def sent_append RENDERED_TYPES_def split: sum.splits)

lemma postEvent_paced:
  "paced (snd (postEvent rl pe ev)) = (if renders rl pe ev then [Inl ev] else [])"
  using fetchCommits_quiet [of rl "compare pe"] fetchCommits_raises [of rl "compare pe"]
  by (cases "fetchCommits rl (compare pe)")
     (auto simp: postEvent_def renders_def send_def paced_append RENDERED_TYPES_def split: sum.splits)

lemma postEvent_saved:
  "saved (snd (postEvent rl pe ev)) = []"
  using fetchCommits_quiet [of rl "compare pe"]
  by (cases "fetchCommits rl (compare pe)")
     (auto simp: postEvent_def send_def saved_append split: sum.splits)

section \<open>The cycle, step by step\<close>

lemma collect_filter:
  "collect tys stored events =
     filter (\<lambda>e. event_type e \<in> set tys)
       (takeWhile (\<lambda>e. Some (event_id e) \<noteq> stored) events)"
  by (induction events) simp_all

lemma pollGitHub_found:
  assumes "fst (fetchEvents (rateLimitReset s) (feed env)) = Inr (Some events)"
    and "channel env"
  shows "pollGitHub tys env s =
     (case dispatch (posts env) s (rateLimitReset s) (collect tys (lastEventId s) events) of
        (rl', t') \<Rightarrow>
          (case events of
             [] \<Rightarrow> (s\<lparr>rateLimitReset := rl'\<rparr>, t')
           | e # _ \<Rightarrow>
               (\<lparr>lastEventId = Some (event_id e), rateLimitReset = rl'\<rparr>,
                t' @ [Save (event_id e)])))"
proof -
  obtain rl t where f: "fetchEvents (rateLimitReset s) (feed env) = (Inr (Some events), rl, t)"
    using assms(1) by (cases "fetchEvents (rateLimitReset s) (feed env)") auto
  then have "rl = rateLimitReset s \<and> t = []"
    using fetchGitHub_list [of "rateLimitReset s" "feed env" events rl t]
    by (simp add: fetchEvents_def)
  with f assms(2) show ?thesis
    by (simp add: pollGitHub_def split: prod.splits list.splits)
qed

lemma pollGitHub_nonempty:
  assumes "fst (fetchEvents (rateLimitReset s) (feed env)) = Inr (Some (e # es))"
    and "channel env"
  shows "pollGitHub tys env s =
     (\<lparr>lastEventId = Some (event_id e),
       rateLimitReset = fst (dispatch (posts env) s (rateLimitReset s)
                               (collect tys (lastEventId s) (e # es)))\<rparr>,
      snd (dispatch (posts env) s (rateLimitReset s) (collect tys (lastEventId s) (e # es)))
        @ [Save (event_id e)])"
  unfolding pollGitHub_found [OF assms]
  by (simp add: case_prod_beta)

lemma post_each_sent:
  "set (sent (snd (post_each pes k rl es))) \<subseteq> set es"
proof (induction es arbitrary: k rl)
  case Nil
  show ?case by simp
next
  case (Cons e es)
  obtain rl1 t1 where p: "postEvent rl (pes k) e = (rl1, t1)"
    by (cases "postEvent rl (pes k) e")
  obtain rl2 t2 where q: "post_each pes (Suc k) rl1 es = (rl2, t2)"
    by (cases "post_each pes (Suc k) rl1 es")
  have "set (sent t1) \<subseteq> {e}"
    using postEvent_sent [of rl "pes k" e] p by (simp split: if_splits)
  moreover have "set (sent t2) \<subseteq> set es"
    using Cons.IH [of "Suc k" rl1] q by simp
  ultimately show ?case
    using p q by (auto simp: sent_append)
qed

lemma post_each_saved:
  "saved (snd (post_each pes k rl es)) = []"
proof (induction es arbitrary: k rl)
  case Nil
  show ?case by simp
next
  case (Cons e es)
  obtain rl1 t1 where p: "postEvent rl (pes k) e = (rl1, t1)"
    by (cases "postEvent rl (pes k) e")
  obtain rl2 t2 where q: "post_each pes (Suc k) rl1 es = (rl2, t2)"
    by (cases "post_each pes (Suc k) rl1 es")
  have "saved t1 = []"
    using postEvent_saved [of rl "pes k" e] p by simp
  moreover have "saved t2 = []"
    using Cons.IH [of "Suc k" rl1] q by simp
  ultimately show ?case
    using p q by (simp add: saved_append)
qed

lemma dispatch_saved: "saved (snd (dispatch pes s rl es)) = []"
  by (simp add: dispatch_def postEvent_saved post_each_saved)

lemma dispatch_sent: "set (sent (snd (dispatch pes s rl es))) \<subseteq> set es"
  using post_each_sent [of pes 0 rl "rev es"]
  by (cases es) (auto simp: dispatch_def postEvent_sent)

lemma renders_any:
  "event_type ev \<in> set RENDERED_TYPES \<Longrightarrow> \<not> hard_failure (compare pe) \<Longrightarrow> renders rl pe ev"
  by (simp add: renders_def raises_def)

section \<open>The sample inputs, evaluated\<close>

lemma EVENT_TYPES_default:
  "EVENT_TYPES None =
     [''PushEvent'', ''CreateEvent'', ''ForkEvent'', ''ReleaseEvent'', ''IssuesEvent'',
      ''IssueCommentEvent'', ''PullRequestEvent'']"
  by (simp add: EVENT_TYPES_def DEFAULT_EVENT_TYPES_def)

lemma fetch_sample:
  "fst (fetchEvents (Num 0) (feed (cycle_of events found))) = Inr (Some events)"
  by (simp add: fetchEvents_def fetchGitHub_def cycle_of_def replied_def throttled_def ok_def)

lemma plain_post_soft: "\<not> hard_failure (compare plain_post)"
  by (simp add: hard_failure_def plain_post_def replied_def throttled_def ok_def)

section \<open>Order of dispatch\<close>

text \<open>
  The pauses and messages of the loop over the new items, and what a cycle that starts
  from a stored id sends when every item is rendered: the new items of allowed types,
  oldest first, each followed by a pause of 500 ms.
\<close>

lemma post_each_paced:
  "paced (snd (post_each pes k rl (e # es))) =
     (if renders rl (pes k) e then [Inl e] else []) @ [Inr 500] @
     paced (snd (post_each pes (Suc k) (fst (postEvent rl (pes k) e)) es))"
  using postEvent_paced [of rl "pes k" e]
  by (cases "postEvent rl (pes k) e") (simp add: case_prod_beta paced_append)

lemma post_each_all_rendered:
  assumes "\<And>e. e \<in> set es \<Longrightarrow> event_type e \<in> set RENDERED_TYPES"
    and "\<And>k. \<not> hard_failure (compare (pes k))"
  shows "paced (snd (post_each pes k rl es)) = concat (map (\<lambda>e. [Inl e, Inr 500]) es)"
  using assms(1)
proof (induction es arbitrary: k rl)
  case Nil
  show ?case by simp
next
  case (Cons e es)
  have "renders rl (pes k) e"
    using Cons.prems assms(2) by (simp add: renders_any)
  then show ?case
    unfolding post_each_paced using Cons by simp
qed

lemma replay_oldest_first:
  assumes "lastEventId s = Some a"
    and "fst (fetchEvents (rateLimitReset s) (feed env)) = Inr (Some events)"
    and "channel env"
    and "\<And>e. e \<in> set events \<Longrightarrow> event_type e \<in> set RENDERED_TYPES"
    and "\<And>k. \<not> hard_failure (compare (posts env k))"
  shows "paced (snd (pollGitHub tys env s)) =
           concat (map (\<lambda>e. [Inl e, Inr 500]) (rev (collect tys (Some a) events)))"
proof -
  let ?new = "collect tys (Some a) events"
  have sub: "set ?new \<subseteq> set events"
    by (auto simp: collect_filter dest: set_takeWhileD)
  have d: "paced (snd (dispatch (posts env) s (rateLimitReset s) ?new))
      = concat (map (\<lambda>e. [Inl e, Inr 500]) (rev ?new))"
  proof (cases "?new = []")
    case True
    then show ?thesis by (simp add: dispatch_def)
  next
    case False
    then show ?thesis
      using post_each_all_rendered [of "rev ?new" "posts env" 0 "rateLimitReset s"]
        assms(1,4,5) sub
      by (auto simp: dispatch_def)
  qed
  show ?thesis
  proof (cases events)
    case Nil
    then show ?thesis
      unfolding pollGitHub_found [OF assms(2,3)] by (simp add: dispatch_def)
  next
    case (Cons e es)
    have "paced (snd (pollGitHub tys env s)) =
        paced (snd (dispatch (posts env) s (rateLimitReset s) (collect tys (lastEventId s) events)))"
      using pollGitHub_nonempty [of s env e es tys] assms(2,3) Cons by (simp add: paced_append)
    then show ?thesis
      using d assms(1) by simp
  qed
qed

text \<open>
  C1, as stated, at a concrete input: the stored id is 3, the feed is a push (5), a
  fork (4) and item 3, newest first, and the allow-list is pushes and releases. The
  channel is handed the push alone, not item 4 then item 5.
\<close>

theorem replay_filtered_counterexample:
  "lastEventId (seen ''3'') = Some (event_id (item ''3'' ''PushEvent'')) \<and>
   fst (fetchEvents (rateLimitReset (seen ''3''))
     (feed (cycle_of [item ''5'' ''PushEvent'', item ''4'' ''ForkEvent'', item ''3'' ''PushEvent''] True)))
     = Inr (Some [item ''5'' ''PushEvent'', item ''4'' ''ForkEvent'', item ''3'' ''PushEvent'']) \<and>
   paced (snd (pollGitHub (EVENT_TYPES (Some ''PushEvent,ReleaseEvent''))
     (cycle_of [item ''5'' ''PushEvent'', item ''4'' ''ForkEvent'', item ''3'' ''PushEvent''] True)
     (seen ''3'')))
     = [Inl (item ''5'' ''PushEvent''), Inr 500]"
proof -
  let ?evs = "[item ''5'' ''PushEvent'', item ''4'' ''ForkEvent'', item ''3'' ''PushEvent'']"
  let ?env = "cycle_of ?evs True"
  let ?tys = "EVENT_TYPES (Some ''PushEvent,ReleaseEvent'')"
  have 1: "lastEventId (seen ''3'') = Some (event_id (item ''3'' ''PushEvent''))"
    by (simp add: seen_def item_def)
  have 2: "fst (fetchEvents (rateLimitReset (seen ''3'')) (feed ?env)) = Inr (Some ?evs)"
    by (simp add: seen_def fetch_sample)
  have 3: "channel ?env" by (simp add: cycle_of_def)
  have 4: "?tys = [''PushEvent'', ''ReleaseEvent'']"
    by (simp add: EVENT_TYPES_def)
  have 5: "collect ?tys (lastEventId (seen ''3'')) ?evs = [item ''5'' ''PushEvent'']"
    by (simp add: 4 seen_def item_def)
  have 6: "postEvent rl plain_post (item ''5'' ''PushEvent'')
      = (rl, [Send (item ''5'' ''PushEvent'') [], Log (Posted ''PushEvent'' ''octo/repo'')])" for rl
    by (simp add: postEvent_def item_def needs_backfill_def send_def plain_post_def)
  have 7: "posts ?env k = plain_post" for k by (simp add: cycle_of_def)
  have 8: "lastEventId (seen ''3'') \<noteq> None" by (simp add: seen_def)
  have "paced (snd (pollGitHub ?tys ?env (seen ''3''))) = [Inl (item ''5'' ''PushEvent''), Inr 500]"
    unfolding pollGitHub_nonempty [OF 2 3] 5
    by (simp add: dispatch_def 6 7 8)
  with 1 2 show ?thesis by simp
qed

text \<open>
  C1, amended. In a cycle that starts from a stored id and finds the channel, with the
  feed \<open>[e5, e4, e3]\<close> (newest first) and \<open>e3\<close> the stored id: the items newer than \<open>e3\<close>
  whose type is in the allow-list are dispatched oldest first, \<open>e4\<close> before \<open>e5\<close> and
  never the reverse, each dispatch followed by a pause of 500 ms; a dispatched
  item is handed to the channel when it is rendered (its type has a case in the
  renderer and its compare request, if it needs one, does not raise), and nothing
  else is sent. In particular, when both items are of allowed types that the renderer
  knows and no compare request fails hard, the channel gets \<open>e4\<close>, a pause, \<open>e5\<close>, a
  pause.
\<close>

theorem replay_chronological:
  assumes "lastEventId s = Some (event_id e3)"
    and "fst (fetchEvents (rateLimitReset s) (feed env)) = Inr (Some [e5, e4, e3])"
    and "channel env"
    and "event_id e5 \<noteq> event_id e3" and "event_id e4 \<noteq> event_id e3"
  shows "paced (snd (pollGitHub tys env s)) =
     (if event_type e4 \<in> set tys then
        (if renders (rateLimitReset s) (posts env 0) e4 then [Inl e4] else []) @ [Inr 500] @
        (if event_type e5 \<in> set tys then
           (if renders (fst (postEvent (rateLimitReset s) (posts env 0) e4)) (posts env 1) e5
            then [Inl e5] else []) @ [Inr 500]
         else [])
      else if event_type e5 \<in> set tys then
        (if renders (rateLimitReset s) (posts env 0) e5 then [Inl e5] else []) @ [Inr 500]
      else []) \<and>
     (event_type e4 \<in> set tys \<and> event_type e5 \<in> set tys \<and>
      event_type e4 \<in> set RENDERED_TYPES \<and> event_type e5 \<in> set RENDERED_TYPES \<and>
      \<not> hard_failure (compare (posts env 0)) \<and> \<not> hard_failure (compare (posts env 1))
      \<longrightarrow> paced (snd (pollGitHub tys env s)) = [Inl e4, Inr 500, Inl e5, Inr 500])"
proof -
  have c: "collect tys (lastEventId s) (e5 # [e4, e3]) =
      filter (\<lambda>e. event_type e \<in> set tys) [e5, e4]"
    using assms(1,4,5) by simp
  have p: "paced (snd (pollGitHub tys env s)) =
      paced (snd (dispatch (posts env) s (rateLimitReset s)
                    (filter (\<lambda>e. event_type e \<in> set tys) [e5, e4])))"
    unfolding pollGitHub_nonempty [OF assms(2,3)] c by (simp add: paced_append)
  have n: "lastEventId s \<noteq> None"
    using assms(1) by simp
  have exact: "paced (snd (pollGitHub tys env s)) =
     (if event_type e4 \<in> set tys then
        (if renders (rateLimitReset s) (posts env 0) e4 then [Inl e4] else []) @ [Inr 500] @
        (if event_type e5 \<in> set tys then
           (if renders (fst (postEvent (rateLimitReset s) (posts env 0) e4)) (posts env 1) e5
            then [Inl e5] else []) @ [Inr 500]
         else [])
      else if event_type e5 \<in> set tys then
        (if renders (rateLimitReset s) (posts env 0) e5 then [Inl e5] else []) @ [Inr 500]
      else [])"
    unfolding p by (simp add: dispatch_def n post_each_paced del: post_each.simps(2))
  show ?thesis
  proof (intro conjI impI)
    show "paced (snd (pollGitHub tys env s)) =
     (if event_type e4 \<in> set tys then
        (if renders (rateLimitReset s) (posts env 0) e4 then [Inl e4] else []) @ [Inr 500] @
        (if event_type e5 \<in> set tys then
           (if renders (fst (postEvent (rateLimitReset s) (posts env 0) e4)) (posts env 1) e5
            then [Inl e5] else []) @ [Inr 500]
         else [])
      else if event_type e5 \<in> set tys then
        (if renders (rateLimitReset s) (posts env 0) e5 then [Inl e5] else []) @ [Inr 500]
      else [])"
      by (rule exact)
  next
    assume "event_type e4 \<in> set tys \<and> event_type e5 \<in> set tys \<and>
      event_type e4 \<in> set RENDERED_TYPES \<and> event_type e5 \<in> set RENDERED_TYPES \<and>
      \<not> hard_failure (compare (posts env 0)) \<and> \<not> hard_failure (compare (posts env 1))"
    then show "paced (snd (pollGitHub tys env s)) = [Inl e4, Inr 500, Inl e5, Inr 500]"
      unfolding exact by (simp add: renders_any)
  qed
qed

theorem replay_chronological_witness:
  "lastEventId (seen ''3'') = Some (event_id (item ''3'' ''PushEvent'')) \<and>
   fst (fetchEvents (rateLimitReset (seen ''3''))
     (feed (cycle_of [item ''5'' ''PushEvent'', item ''4'' ''ForkEvent'', item ''3'' ''PushEvent''] True)))
     = Inr (Some [item ''5'' ''PushEvent'', item ''4'' ''ForkEvent'', item ''3'' ''PushEvent'']) \<and>
   channel (cycle_of [item ''5'' ''PushEvent'', item ''4'' ''ForkEvent'', item ''3'' ''PushEvent''] True) \<and>
   paced (snd (pollGitHub (EVENT_TYPES None)
     (cycle_of [item ''5'' ''PushEvent'', item ''4'' ''ForkEvent'', item ''3'' ''PushEvent''] True)
     (seen ''3'')))
     = [Inl (item ''4'' ''ForkEvent''), Inr 500, Inl (item ''5'' ''PushEvent''), Inr 500]"
proof -
  let ?env = "cycle_of [item ''5'' ''PushEvent'', item ''4'' ''ForkEvent'', item ''3'' ''PushEvent''] True"
  have 1: "lastEventId (seen ''3'') = Some (event_id (item ''3'' ''PushEvent''))"
    by (simp add: seen_def item_def)
  have 2: "fst (fetchEvents (rateLimitReset (seen ''3'')) (feed ?env))
     = Inr (Some [item ''5'' ''PushEvent'', item ''4'' ''ForkEvent'', item ''3'' ''PushEvent''])"
    by (simp add: seen_def fetch_sample)
  have 3: "channel ?env" by (simp add: cycle_of_def)
  have 4: "event_id (item ''5'' ''PushEvent'') \<noteq> event_id (item ''3'' ''PushEvent'')"
    "event_id (item ''4'' ''ForkEvent'') \<noteq> event_id (item ''3'' ''PushEvent'')"
    by (simp_all add: item_def)
  have 5: "event_type (item ''4'' ''ForkEvent'') \<in> set (EVENT_TYPES None) \<and>
      event_type (item ''5'' ''PushEvent'') \<in> set (EVENT_TYPES None) \<and>
      event_type (item ''4'' ''ForkEvent'') \<in> set RENDERED_TYPES \<and>
      event_type (item ''5'' ''PushEvent'') \<in> set RENDERED_TYPES \<and>
      \<not> hard_failure (compare (posts ?env 0)) \<and> \<not> hard_failure (compare (posts ?env 1))"
    by (simp add: item_def EVENT_TYPES_default RENDERED_TYPES_def cycle_of_def plain_post_soft)
  have "paced (snd (pollGitHub (EVENT_TYPES None) ?env (seen ''3'')))
     = [Inl (item ''4'' ''ForkEvent''), Inr 500, Inl (item ''5'' ''PushEvent''), Inr 500]"
    by (rule replay_chronological [OF 1 2 3 4, THEN conjunct2, THEN mp, OF 5])
  with 1 2 3 show ?thesis by simp
qed

lemma collect_cold: "collect tys None events = filter (\<lambda>e. event_type e \<in> set tys) events"
  by (induction events) simp_all

section \<open>The first run\<close>

text \<open>
  C2, as stated, at a concrete input: a cold start (no stored id), an allow-list of
  pushes and releases, and a feed whose only item is a fork. The list fetched is not
  empty and the channel is found, yet no message is sent.
\<close>

theorem first_run_counterexample:
  "lastEventId cold = None \<and>
   fst (fetchEvents (rateLimitReset cold) (feed (cycle_of [item ''5'' ''ForkEvent''] True)))
     = Inr (Some [item ''5'' ''ForkEvent'']) \<and>
   channel (cycle_of [item ''5'' ''ForkEvent''] True) \<and>
   sent (snd (pollGitHub (EVENT_TYPES (Some ''PushEvent,ReleaseEvent''))
     (cycle_of [item ''5'' ''ForkEvent''] True) cold)) = []"
proof -
  let ?env = "cycle_of [item ''5'' ''ForkEvent''] True"
  have 1: "lastEventId cold = None" by (simp add: cold_def)
  have 2: "fst (fetchEvents (rateLimitReset cold) (feed ?env)) = Inr (Some [item ''5'' ''ForkEvent''])"
    by (simp add: cold_def fetch_sample)
  have 3: "channel ?env" by (simp add: cycle_of_def)
  have 4: "EVENT_TYPES (Some ''PushEvent,ReleaseEvent'') = [''PushEvent'', ''ReleaseEvent'']"
    by (simp add: EVENT_TYPES_def)
  have 5: "collect (EVENT_TYPES (Some ''PushEvent,ReleaseEvent'')) (lastEventId cold)
      [item ''5'' ''ForkEvent''] = []"
    by (simp add: 4 item_def)
  have "sent (snd (pollGitHub (EVENT_TYPES (Some ''PushEvent,ReleaseEvent'')) ?env cold)) = []"
    unfolding pollGitHub_found [OF 2 3] 5 by (simp add: dispatch_def)
  with 1 2 3 show ?thesis by simp
qed

text \<open>
  C2, amended. On a cold start with a non-empty list fetched and the channel found, at
  most one message is sent: the one for the newest item of an allowed type, when there
  is such an item and it is rendered; none otherwise. The stored id then becomes the id
  of the newest item fetched, allowed or not, and that id is saved.
\<close>

theorem first_run_single:
  assumes "lastEventId s = None"
    and "fst (fetchEvents (rateLimitReset s) (feed env)) = Inr (Some events)"
    and "events \<noteq> []"
    and "channel env"
  shows "sent (snd (pollGitHub tys env s)) =
           (case filter (\<lambda>e. event_type e \<in> set tys) events of
              [] \<Rightarrow> []
            | e # _ \<Rightarrow> if renders (rateLimitReset s) (posts env 0) e then [e] else []) \<and>
         lastEventId (fst (pollGitHub tys env s)) = Some (event_id (hd events)) \<and>
         saved (snd (pollGitHub tys env s)) = [event_id (hd events)]"
proof -
  obtain e es where ev: "events = e # es"
    using assms(3) by (cases events) auto
  let ?new = "filter (\<lambda>e. event_type e \<in> set tys) events"
  obtain rl' t' where d: "dispatch (posts env) s (rateLimitReset s) ?new = (rl', t')"
    by (cases "dispatch (posts env) s (rateLimitReset s) ?new")
  have "collect tys (lastEventId s) events = ?new"
    by (simp add: assms(1) collect_cold)
  then have "pollGitHub tys env s =
      (case events of
         [] \<Rightarrow> (s\<lparr>rateLimitReset := rl'\<rparr>, t')
       | e # _ \<Rightarrow> (\<lparr>lastEventId = Some (event_id e), rateLimitReset = rl'\<rparr>,
                   t' @ [Save (event_id e)]))"
    using pollGitHub_found [OF assms(2,4), of tys] d by simp
  then have p: "pollGitHub tys env s =
      (\<lparr>lastEventId = Some (event_id e), rateLimitReset = rl'\<rparr>, t' @ [Save (event_id e)])"
    by (simp add: ev)
  have s: "sent t' = (case ?new of [] \<Rightarrow> []
            | e # _ \<Rightarrow> if renders (rateLimitReset s) (posts env 0) e then [e] else [])"
    using d assms(1) postEvent_sent [of "rateLimitReset s" "posts env 0" "hd ?new"]
    by (cases ?new) (auto simp: dispatch_def)
  have v: "saved t' = []"
    using dispatch_saved [of "posts env" s "rateLimitReset s" ?new] d by simp
  show ?thesis
    using p s v ev by (simp add: sent_append saved_append)
qed

theorem first_run_single_witness:
  "lastEventId cold = None \<and>
   [item ''5'' ''WatchEvent'', item ''4'' ''ForkEvent'', item ''3'' ''PushEvent''] \<noteq> [] \<and>
   sent (snd (pollGitHub (EVENT_TYPES None)
      (cycle_of [item ''5'' ''WatchEvent'', item ''4'' ''ForkEvent'', item ''3'' ''PushEvent''] True)
      cold)) = [item ''4'' ''ForkEvent''] \<and>
   lastEventId (fst (pollGitHub (EVENT_TYPES None)
      (cycle_of [item ''5'' ''WatchEvent'', item ''4'' ''ForkEvent'', item ''3'' ''PushEvent''] True)
      cold)) = Some ''5'' \<and>
   saved (snd (pollGitHub (EVENT_TYPES None)
      (cycle_of [item ''5'' ''WatchEvent'', item ''4'' ''ForkEvent'', item ''3'' ''PushEvent''] True)
      cold)) = [''5'']"
proof -
  let ?evs = "[item ''5'' ''WatchEvent'', item ''4'' ''ForkEvent'', item ''3'' ''PushEvent'']"
  let ?env = "cycle_of ?evs True"
  have 1: "lastEventId cold = None" by (simp add: cold_def)
  have 2: "fst (fetchEvents (rateLimitReset cold) (feed ?env)) = Inr (Some ?evs)"
    by (simp add: cold_def fetch_sample)
  have 3: "?evs \<noteq> []" by simp
  have 4: "channel ?env" by (simp add: cycle_of_def)
  have 5: "filter (\<lambda>e. event_type e \<in> set (EVENT_TYPES None)) ?evs
      = [item ''4'' ''ForkEvent'', item ''3'' ''PushEvent'']"
    by (simp add: EVENT_TYPES_default item_def)
  have 6: "renders (rateLimitReset cold) (posts ?env 0) (item ''4'' ''ForkEvent'')"
    by (simp add: renders_def item_def RENDERED_TYPES_def)
  have 7: "event_id (hd ?evs) = ''5''" by (simp add: item_def)
  show ?thesis
    using first_run_single [OF 1 2 3 4, of "EVENT_TYPES None"] 1 5 6 7 by simp
qed

section \<open>Advancing the stored id\<close>

text \<open>
  C3, as stated, at a concrete input: the list fetched is not empty, but the channel
  is not found; the stored id stays at 5 although the newest item is 6, and nothing
  is saved.
\<close>

theorem advance_counterexample:
  "fst (fetchEvents (rateLimitReset (seen ''5''))
      (feed (cycle_of [item ''6'' ''PushEvent'', item ''5'' ''PushEvent''] False)))
     = Inr (Some [item ''6'' ''PushEvent'', item ''5'' ''PushEvent'']) \<and>
   lastEventId (fst (pollGitHub (EVENT_TYPES None)
      (cycle_of [item ''6'' ''PushEvent'', item ''5'' ''PushEvent''] False) (seen ''5''))) = Some ''5'' \<and>
   saved (snd (pollGitHub (EVENT_TYPES None)
      (cycle_of [item ''6'' ''PushEvent'', item ''5'' ''PushEvent''] False) (seen ''5''))) = []"
  by (simp add: pollGitHub_def fetchEvents_def fetchGitHub_def cycle_of_def replied_def
      throttled_def ok_def seen_def)

text \<open>
  C3, amended. In every cycle that fetches a non-empty list and finds the channel, the
  stored id becomes the id of the newest item fetched and that id is saved, whatever
  was dispatched; and only items of allowed types are ever sent, so a newest item of
  an excluded type advances the id without being sent.
\<close>

theorem advance_when_channel_found:
  assumes "fst (fetchEvents (rateLimitReset s) (feed env)) = Inr (Some events)"
    and "events \<noteq> []"
    and "channel env"
  shows "lastEventId (fst (pollGitHub tys env s)) = Some (event_id (hd events)) \<and>
         saved (snd (pollGitHub tys env s)) = [event_id (hd events)] \<and>
         set (sent (snd (pollGitHub tys env s))) \<subseteq> {e. event_type e \<in> set tys}"
proof -
  obtain e es where ev: "events = e # es"
    using assms(2) by (cases events) auto
  let ?new = "collect tys (lastEventId s) events"
  obtain rl' t' where d: "dispatch (posts env) s (rateLimitReset s) ?new = (rl', t')"
    by (cases "dispatch (posts env) s (rateLimitReset s) ?new")
  have "pollGitHub tys env s =
      (case events of
         [] \<Rightarrow> (s\<lparr>rateLimitReset := rl'\<rparr>, t')
       | e # _ \<Rightarrow> (\<lparr>lastEventId = Some (event_id e), rateLimitReset = rl'\<rparr>,
                   t' @ [Save (event_id e)]))"
    using pollGitHub_found [OF assms(1,3), of tys] d by simp
  then have p: "pollGitHub tys env s =
      (\<lparr>lastEventId = Some (event_id e), rateLimitReset = rl'\<rparr>, t' @ [Save (event_id e)])"
    by (simp add: ev)
  have v: "saved t' = []"
    using dispatch_saved [of "posts env" s "rateLimitReset s" ?new] d by simp
  have "set (sent t') \<subseteq> set ?new"
    using dispatch_sent [of "posts env" s "rateLimitReset s" ?new] d by simp
  then have a: "set (sent t') \<subseteq> {e. event_type e \<in> set tys}"
    by (auto simp: collect_filter)
  show ?thesis
    using p v a ev by (simp add: sent_append saved_append)
qed

theorem advance_when_channel_found_witness:
  "[item ''6'' ''WatchEvent'', item ''5'' ''PushEvent''] \<noteq> [] \<and>
   channel (cycle_of [item ''6'' ''WatchEvent'', item ''5'' ''PushEvent''] True) \<and>
   lastEventId (fst (pollGitHub (EVENT_TYPES None)
     (cycle_of [item ''6'' ''WatchEvent'', item ''5'' ''PushEvent''] True) (seen ''5''))) = Some ''6'' \<and>
   saved (snd (pollGitHub (EVENT_TYPES None)
     (cycle_of [item ''6'' ''WatchEvent'', item ''5'' ''PushEvent''] True) (seen ''5''))) = [''6''] \<and>
   item ''6'' ''WatchEvent'' \<notin> set (sent (snd (pollGitHub (EVENT_TYPES None)
     (cycle_of [item ''6'' ''WatchEvent'', item ''5'' ''PushEvent''] True) (seen ''5''))))"
proof -
  let ?evs = "[item ''6'' ''WatchEvent'', item ''5'' ''PushEvent'']"
  let ?env = "cycle_of ?evs True"
  have 1: "fst (fetchEvents (rateLimitReset (seen ''5'')) (feed ?env)) = Inr (Some ?evs)"
    by (simp add: seen_def fetch_sample)
  have 2: "?evs \<noteq> []" by simp
  have 3: "channel ?env" by (simp add: cycle_of_def)
  have 4: "event_id (hd ?evs) = ''6''" by (simp add: item_def)
  have 5: "event_type (item ''6'' ''WatchEvent'') \<notin> set (EVENT_TYPES None)"
    by (simp add: EVENT_TYPES_default item_def)
  show ?thesis
    using advance_when_channel_found [OF 1 2 3, of "EVENT_TYPES None"] 3 4 5 by auto
qed

section \<open>Running the same feed twice\<close>

lemma sample_cycle:
  "pollGitHub (EVENT_TYPES None)
     (cycle_of [item ''5'' ''PushEvent'', item ''4'' ''ForkEvent'', item ''3'' ''PushEvent''] True)
     (seen ''3'') =
   (seen ''5'',
    [Send (item ''4'' ''ForkEvent'') [], Log (Posted ''ForkEvent'' ''octo/repo''), Sleep 500,
     Send (item ''5'' ''PushEvent'') [], Log (Posted ''PushEvent'' ''octo/repo''), Sleep 500,
     Save ''5''])"
proof -
  let ?evs = "[item ''5'' ''PushEvent'', item ''4'' ''ForkEvent'', item ''3'' ''PushEvent'']"
  have 1: "fst (fetchEvents (rateLimitReset (seen ''3'')) (feed (cycle_of ?evs True))) = Inr (Some ?evs)"
    by (simp add: seen_def fetch_sample)
  have 2: "channel (cycle_of ?evs True)" by (simp add: cycle_of_def)
  have 3: "collect (EVENT_TYPES None) (lastEventId (seen ''3'')) ?evs
      = [item ''5'' ''PushEvent'', item ''4'' ''ForkEvent'']"
    by (simp add: EVENT_TYPES_default seen_def item_def)
  have 4: "postEvent rl plain_post (item ''4'' ''ForkEvent'')
      = (rl, [Send (item ''4'' ''ForkEvent'') [], Log (Posted ''ForkEvent'' ''octo/repo'')])" for rl
    by (simp add: postEvent_def item_def RENDERED_TYPES_def send_def plain_post_def)
  have 5: "postEvent rl plain_post (item ''5'' ''PushEvent'')
      = (rl, [Send (item ''5'' ''PushEvent'') [], Log (Posted ''PushEvent'' ''octo/repo'')])" for rl
    by (simp add: postEvent_def item_def needs_backfill_def send_def plain_post_def)
  have 6: "posts (cycle_of ?evs True) k = plain_post" for k by (simp add: cycle_of_def)
  have 7: "lastEventId (seen ''3'') \<noteq> None" "rateLimitReset (seen ''3'') = Num 0"
    by (simp_all add: seen_def)
  have 8: "event_id (item ''5'' ''PushEvent'') = ''5''" by (simp add: item_def)
  show ?thesis
    unfolding pollGitHub_nonempty [OF 1 2] 3
    by (simp add: dispatch_def 4 5 6 7 8 seen_def)
qed

text \<open>
  C4. A cycle fetches a non-empty list with the channel found, and so advances the
  stored id to the newest id of the list. If the list the source returns is the same
  at the next cycle, that cycle hands no message to the channel and makes no pause,
  and leaves the stored id where it was: whether its request is suppressed, throttled,
  fails, or brings the list again.
\<close>

theorem second_run_sends_nothing:
  assumes "fst (fetchEvents (rateLimitReset s) (feed env1)) = Inr (Some events)"
    and "events \<noteq> []"
    and "channel env1"
    and "remote env2 = events"
  shows "sent (snd (pollGitHub tys env2 (fst (pollGitHub tys env1 s)))) = [] \<and>
         paced (snd (pollGitHub tys env2 (fst (pollGitHub tys env1 s)))) = [] \<and>
         lastEventId (fst (pollGitHub tys env2 (fst (pollGitHub tys env1 s))))
           = lastEventId (fst (pollGitHub tys env1 s))"
proof -
  let ?s1 = "fst (pollGitHub tys env1 s)"
  obtain e es where ev: "events = e # es"
    using assms(2) by (cases events) auto
  have l: "lastEventId ?s1 = Some (event_id e)"
    using pollGitHub_nonempty [of s env1 e es tys] assms(1,3) ev by simp
  obtain res rl t where f: "fetchEvents (rateLimitReset ?s1) (feed env2) = (res, rl, t)"
    by (cases "fetchEvents (rateLimitReset ?s1) (feed env2)")
  have q: "sent t = []" "paced t = []"
    using fetchGitHub_quiet [of "rateLimitReset ?s1" "feed env2"] f
    by (simp_all add: fetchEvents_def)
  show ?thesis
  proof (cases res)
    case (Inl err)
    with f q show ?thesis
      by (simp add: pollGitHub_def sent_append paced_append)
  next
    case (Inr v)
    show ?thesis
    proof (cases v)
      case None
      with Inr f q show ?thesis
        by (simp add: pollGitHub_def)
    next
      case (Some events2)
      have g: "fst (fetchEvents (rateLimitReset ?s1) (feed env2)) = Inr (Some events2)"
        using f Inr Some by simp
      then have same: "events2 = e # es"
        using fetchGitHub_body [of "rateLimitReset ?s1" "feed env2" events2] assms(4) ev
        by (auto simp: fetchEvents_def remote_def)
      show ?thesis
      proof (cases "channel env2")
        case False
        with f Inr Some q show ?thesis
          by (simp add: pollGitHub_def sent_append paced_append)
      next
        case True
        have c: "collect tys (lastEventId ?s1) (e # es) = []"
          by (simp add: l)
        have "pollGitHub tys env2 ?s1 =
            (\<lparr>lastEventId = Some (event_id e), rateLimitReset = rateLimitReset ?s1\<rparr>,
             [Save (event_id e)])"
          using pollGitHub_nonempty [of ?s1 env2 e es tys] g True same c
          by (simp add: dispatch_def)
        then show ?thesis
          by (simp add: l)
      qed
    qed
  qed
qed

theorem second_run_sends_nothing_witness:
  "[item ''5'' ''PushEvent'', item ''4'' ''ForkEvent'', item ''3'' ''PushEvent''] \<noteq> [] \<and>
   sent (snd (pollGitHub (EVENT_TYPES None)
     (cycle_of [item ''5'' ''PushEvent'', item ''4'' ''ForkEvent'', item ''3'' ''PushEvent''] True)
     (seen ''3''))) = [item ''4'' ''ForkEvent'', item ''5'' ''PushEvent''] \<and>
   sent (snd (pollGitHub (EVENT_TYPES None)
     (cycle_of [item ''5'' ''PushEvent'', item ''4'' ''ForkEvent'', item ''3'' ''PushEvent''] True)
     (fst (pollGitHub (EVENT_TYPES None)
       (cycle_of [item ''5'' ''PushEvent'', item ''4'' ''ForkEvent'', item ''3'' ''PushEvent''] True)
       (seen ''3''))))) = []"
proof -
  let ?evs = "[item ''5'' ''PushEvent'', item ''4'' ''ForkEvent'', item ''3'' ''PushEvent'']"
  let ?env = "cycle_of ?evs True"
  have 1: "fst (fetchEvents (rateLimitReset (seen ''3'')) (feed ?env)) = Inr (Some ?evs)"
    by (simp add: seen_def fetch_sample)
  have 2: "?evs \<noteq> []" by simp
  have 3: "channel ?env" by (simp add: cycle_of_def)
  have 4: "remote ?env = ?evs"
    by (simp add: remote_def cycle_of_def replied_def)
  have 5: "sent (snd (pollGitHub (EVENT_TYPES None) ?env (seen ''3'')))
      = [item ''4'' ''ForkEvent'', item ''5'' ''PushEvent'']"
    by (simp add: sample_cycle)
  show ?thesis
    using second_run_sends_nothing [OF 1 2 3 4] 5 by simp
qed

section \<open>The channel is not found\<close>

text \<open>
  C10. When the feed is fetched, with a non-empty list, but the channel is not in the
  client's cache, the cycle ends at once: its only effect is the log line, no message
  is sent, nothing is saved, and the state (the stored id and the gate) is what it
  was.
\<close>

theorem channel_not_found_unchanged:
  assumes "fst (fetchEvents (rateLimitReset s) (feed env)) = Inr (Some events)"
    and "events \<noteq> []"
    and "\<not> channel env"
  shows "pollGitHub tys env s = (s, [Log ChannelNotFound])"
proof -
  obtain rl t where f: "fetchEvents (rateLimitReset s) (feed env) = (Inr (Some events), rl, t)"
    using assms(1) by (cases "fetchEvents (rateLimitReset s) (feed env)") auto
  then have "rl = rateLimitReset s \<and> t = []"
    using fetchGitHub_list [of "rateLimitReset s" "feed env" events rl t]
    by (simp add: fetchEvents_def)
  with f assms(3) show ?thesis
    by (simp add: pollGitHub_def)
qed

theorem channel_not_found_unchanged_witness:
  "[item ''6'' ''PushEvent'', item ''5'' ''PushEvent''] \<noteq> [] \<and>
   \<not> channel (cycle_of [item ''6'' ''PushEvent'', item ''5'' ''PushEvent''] False) \<and>
   pollGitHub (EVENT_TYPES None)
     (cycle_of [item ''6'' ''PushEvent'', item ''5'' ''PushEvent''] False) (seen ''5'')
     = (seen ''5'', [Log ChannelNotFound]) \<and>
   sent [Log ChannelNotFound] = [] \<and> saved [Log ChannelNotFound] = []"
proof -
  let ?evs = "[item ''6'' ''PushEvent'', item ''5'' ''PushEvent'']"
  let ?env = "cycle_of ?evs False"
  have 1: "fst (fetchEvents (rateLimitReset (seen ''5'')) (feed ?env)) = Inr (Some ?evs)"
    by (simp add: seen_def fetch_sample)
  have 2: "?evs \<noteq> []" by simp
  have 3: "\<not> channel ?env" by (simp add: cycle_of_def)
  show ?thesis
    using channel_not_found_unchanged [OF 1 2 3, of "EVENT_TYPES None"] 3 by simp
qed

section \<open>Transport failures\<close>

text \<open>
  C5, as stated, at a concrete input: the stored id is 3 and the feed is a fork (5), a
  push (4) whose commits must be fetched, and item 3; the compare request for the push
  is answered with status 500. The failure is logged as an error posting the push, not
  at the cycle boundary; the cycle goes on, sends the fork, and saves id 5.
\<close>

theorem backfill_failure_counterexample:
  "pollGitHub (EVENT_TYPES None) backfill_fails (seen ''3'') =
     (seen ''5'',
      [Log (ErrorPosting ''PushEvent'' (GitHubApiError 500)), Sleep 500,
       Send (item ''5'' ''ForkEvent'') [], Log (Posted ''ForkEvent'' ''octo/repo''), Sleep 500,
       Save ''5''])"
proof -
  let ?evs = "[item ''5'' ''ForkEvent'', push_range ''4'', item ''3'' ''PushEvent'']"
  have 1: "fst (fetchEvents (rateLimitReset (seen ''3'')) (feed backfill_fails)) = Inr (Some ?evs)"
    by (simp add: seen_def backfill_fails_def fetchEvents_def fetchGitHub_def replied_def
        throttled_def ok_def)
  have 2: "channel backfill_fails" by (simp add: backfill_fails_def)
  have 3: "collect (EVENT_TYPES None) (lastEventId (seen ''3'')) ?evs
      = [item ''5'' ''ForkEvent'', push_range ''4'']"
    by (simp add: EVENT_TYPES_default seen_def item_def push_range_def)
  have 4: "postEvent (Num 0) failing_post (push_range ''4'')
      = (Num 0, [Log (ErrorPosting ''PushEvent'' (GitHubApiError 500))])"
    by (simp add: postEvent_def push_range_def needs_backfill_def failing_post_def
        fetchCommits_def fetchGitHub_def replied_def throttled_def ok_def)
  have 5: "postEvent rl plain_post (item ''5'' ''ForkEvent'')
      = (rl, [Send (item ''5'' ''ForkEvent'') [], Log (Posted ''ForkEvent'' ''octo/repo'')])" for rl
    by (simp add: postEvent_def item_def RENDERED_TYPES_def send_def plain_post_def)
  have 6: "posts backfill_fails 0 = failing_post" "posts backfill_fails (Suc 0) = plain_post"
    by (simp_all add: backfill_fails_def)
  have 7: "lastEventId (seen ''3'') \<noteq> None" "rateLimitReset (seen ''3'') = Num 0"
    by (simp_all add: seen_def)
  have 8: "event_id (item ''5'' ''ForkEvent'') = ''5''" by (simp add: item_def)
  show ?thesis
    unfolding pollGitHub_nonempty [OF 1 2] 3
    by (simp add: dispatch_def 4 5 6 7 8 seen_def)
qed

text \<open>
  C5, amended. A status that is neither success nor throttling, on the request for the
  feed, is raised to the cycle boundary and logged there; the cycle ends with no
  dispatch and the state unchanged. The same status on the compare request of a push
  is caught inside \<^verbatim>\<open>postEvent\<close>: it is logged as an error posting that item, the item
  is not sent, the gate is unchanged, and the loop goes on to the pause and the
  remaining items. Whatever the compare requests answer, a cycle that fetched a
  non-empty list and found the channel advances the stored id and saves it.
\<close>

theorem transport_failure_handling:
  "(\<not> suppressed (rateLimitReset s) (feed env) \<and> answer (feed env) = Responded r \<and>
      \<not> throttled r \<and> \<not> ok r
    \<longrightarrow> pollGitHub tys env s = (s, [Log (PollError (GitHubApiError (status r)))])) \<and>
   (event_type ev = ''PushEvent'' \<and> needs_backfill ev \<and>
      \<not> suppressed rl (compare (pes k)) \<and> answer (compare (pes k)) = Responded q \<and>
      \<not> throttled q \<and> \<not> ok q
    \<longrightarrow> postEvent rl (pes k) ev
          = (rl, [Log (ErrorPosting ''PushEvent'' (GitHubApiError (status q)))]) \<and>
        post_each pes k rl (ev # evs)
          = (fst (post_each pes (Suc k) rl evs),
             [Log (ErrorPosting ''PushEvent'' (GitHubApiError (status q))), Sleep 500]
               @ snd (post_each pes (Suc k) rl evs))) \<and>
   (fst (fetchEvents (rateLimitReset s) (feed env)) = Inr (Some (e # es)) \<and> channel env
    \<longrightarrow> lastEventId (fst (pollGitHub tys env s)) = Some (event_id e) \<and>
        saved (snd (pollGitHub tys env s)) = [event_id e])"
proof (intro conjI impI)
  assume a: "\<not> suppressed (rateLimitReset s) (feed env) \<and> answer (feed env) = Responded r \<and>
      \<not> throttled r \<and> \<not> ok r"
  then have "fetchEvents (rateLimitReset s) (feed env)
      = (Inl (GitHubApiError (status r)), rateLimitReset s, [])"
    using fetchGitHub_status [of "rateLimitReset s" "feed env" r] by (simp add: fetchEvents_def)
  then show "pollGitHub tys env s = (s, [Log (PollError (GitHubApiError (status r)))])"
    by (simp add: pollGitHub_def)
next
  assume b: "event_type ev = ''PushEvent'' \<and> needs_backfill ev \<and>
      \<not> suppressed rl (compare (pes k)) \<and> answer (compare (pes k)) = Responded q \<and>
      \<not> throttled q \<and> \<not> ok q"
  then have "fetchCommits rl (compare (pes k)) = (Inl (GitHubApiError (status q)), rl, [])"
    using fetchGitHub_status [of rl "compare (pes k)" q] by (simp add: fetchCommits_def)
  with b have p: "postEvent rl (pes k) ev
      = (rl, [Log (ErrorPosting ''PushEvent'' (GitHubApiError (status q)))])"
    by (simp add: postEvent_def)
  show "postEvent rl (pes k) ev
      = (rl, [Log (ErrorPosting ''PushEvent'' (GitHubApiError (status q)))])"
    by (rule p)
  show "post_each pes k rl (ev # evs)
          = (fst (post_each pes (Suc k) rl evs),
             [Log (ErrorPosting ''PushEvent'' (GitHubApiError (status q))), Sleep 500]
               @ snd (post_each pes (Suc k) rl evs))"
    by (simp add: p case_prod_beta)
next
  assume c: "fst (fetchEvents (rateLimitReset s) (feed env)) = Inr (Some (e # es)) \<and> channel env"
  then have p: "pollGitHub tys env s =
     (\<lparr>lastEventId = Some (event_id e),
       rateLimitReset = fst (dispatch (posts env) s (rateLimitReset s)
                               (collect tys (lastEventId s) (e # es)))\<rparr>,
      snd (dispatch (posts env) s (rateLimitReset s) (collect tys (lastEventId s) (e # es)))
        @ [Save (event_id e)])"
    using pollGitHub_nonempty [of s env e es tys] by simp
  show "lastEventId (fst (pollGitHub tys env s)) = Some (event_id e)"
    by (simp add: p)
  show "saved (snd (pollGitHub tys env s)) = [event_id e]"
    by (simp add: p saved_append dispatch_saved)
qed

theorem transport_failure_handling_witness:
  "pollGitHub (EVENT_TYPES None) feed_fails (seen ''3'')
     = (seen ''3'', [Log (PollError (GitHubApiError 500))]) \<and>
   postEvent (Num 0) (posts backfill_fails 0) (push_range ''4'')
     = (Num 0, [Log (ErrorPosting ''PushEvent'' (GitHubApiError 500))]) \<and>
   post_each (posts backfill_fails) 0 (Num 0) [push_range ''4'', item ''5'' ''ForkEvent'']
     = (fst (post_each (posts backfill_fails) (Suc 0) (Num 0) [item ''5'' ''ForkEvent'']),
        [Log (ErrorPosting ''PushEvent'' (GitHubApiError 500)), Sleep 500]
          @ snd (post_each (posts backfill_fails) (Suc 0) (Num 0) [item ''5'' ''ForkEvent''])) \<and>
   lastEventId (fst (pollGitHub (EVENT_TYPES None) backfill_fails (seen ''3''))) = Some ''5'' \<and>
   saved (snd (pollGitHub (EVENT_TYPES None) backfill_fails (seen ''3''))) = [''5'']"
proof -
  let ?r = "\<lparr>status = 500, reset = None, body = None\<rparr> :: event list response"
  let ?q = "\<lparr>status = 500, reset = None, body = None\<rparr> :: commit list option response"
  have 1: "\<not> suppressed (rateLimitReset (seen ''3'')) (feed feed_fails) \<and>
      answer (feed feed_fails) = Responded ?r \<and> \<not> throttled ?r \<and> \<not> ok ?r"
    by (simp add: suppressed_def seen_def feed_fails_def replied_def throttled_def ok_def)
  have 2: "event_type (push_range ''4'') = ''PushEvent'' \<and> needs_backfill (push_range ''4'') \<and>
      \<not> suppressed (Num 0) (compare (posts backfill_fails 0)) \<and>
      answer (compare (posts backfill_fails 0)) = Responded ?q \<and> \<not> throttled ?q \<and> \<not> ok ?q"
    by (simp add: push_range_def needs_backfill_def suppressed_def backfill_fails_def
        failing_post_def replied_def throttled_def ok_def)
  have 3: "fst (fetchEvents (rateLimitReset (seen ''3'')) (feed backfill_fails))
      = Inr (Some (item ''5'' ''ForkEvent'' # [push_range ''4'', item ''3'' ''PushEvent''])) \<and>
      channel backfill_fails"
    by (simp add: seen_def backfill_fails_def fetchEvents_def fetchGitHub_def replied_def
        throttled_def ok_def)
  have 4: "event_id (item ''5'' ''ForkEvent'') = ''5''" by (simp add: item_def)
  have a: "pollGitHub (EVENT_TYPES None) feed_fails (seen ''3'')
      = (seen ''3'', [Log (PollError (GitHubApiError (status ?r)))])"
    by (rule transport_failure_handling [where s = "seen ''3''" and env = feed_fails and r = ?r,
          THEN conjunct1, THEN mp, OF 1])
  have b: "postEvent (Num 0) (posts backfill_fails 0) (push_range ''4'')
        = (Num 0, [Log (ErrorPosting ''PushEvent'' (GitHubApiError (status ?q)))]) \<and>
      post_each (posts backfill_fails) 0 (Num 0) (push_range ''4'' # [item ''5'' ''ForkEvent''])
        = (fst (post_each (posts backfill_fails) (Suc 0) (Num 0) [item ''5'' ''ForkEvent'']),
           [Log (ErrorPosting ''PushEvent'' (GitHubApiError (status ?q))), Sleep 500]
             @ snd (post_each (posts backfill_fails) (Suc 0) (Num 0) [item ''5'' ''ForkEvent'']))"
    by (rule transport_failure_handling [where ev = "push_range ''4''" and rl = "Num 0"
          and pes = "posts backfill_fails" and k = 0 and q = ?q,
          THEN conjunct2, THEN conjunct1, THEN mp, OF 2])
  have c: "lastEventId (fst (pollGitHub (EVENT_TYPES None) backfill_fails (seen ''3'')))
        = Some (event_id (item ''5'' ''ForkEvent'')) \<and>
      saved (snd (pollGitHub (EVENT_TYPES None) backfill_fails (seen ''3'')))
        = [event_id (item ''5'' ''ForkEvent'')]"
    by (rule transport_failure_handling [where s = "seen ''3''" and env = backfill_fails,
          THEN conjunct2, THEN conjunct2, THEN mp, OF 3])
  show ?thesis
    using a b c 4 by (simp del: post_each.simps)
qed

section \<open>The default allow-list\<close>

text \<open>
  C6, evaluated. With \<^verbatim>\<open>EVENT_TYPES\<close> unset the allow-list has seven types; the renderer
  has a case for \<^verbatim>\<open>WatchEvent\<close>, but the default list does not contain it. A star that
  is the only new item of a cycle is not sent: the cycle only saves its id.
\<close>

theorem default_allow_list_omits_stars:
  "EVENT_TYPES None =
     [''PushEvent'', ''CreateEvent'', ''ForkEvent'', ''ReleaseEvent'', ''IssuesEvent'',
      ''IssueCommentEvent'', ''PullRequestEvent''] \<and>
   ''WatchEvent'' \<in> set RENDERED_TYPES \<and>
   ''WatchEvent'' \<notin> set (EVENT_TYPES None) \<and>
   pollGitHub (EVENT_TYPES None)
     (cycle_of [item ''5'' ''WatchEvent'', item ''4'' ''PushEvent''] True) (seen ''4'')
     = (seen ''5'', [Save ''5''])"
proof -
  let ?evs = "[item ''5'' ''WatchEvent'', item ''4'' ''PushEvent'']"
  have 1: "fst (fetchEvents (rateLimitReset (seen ''4'')) (feed (cycle_of ?evs True)))
      = Inr (Some ?evs)"
    by (simp add: seen_def fetch_sample)
  have 2: "channel (cycle_of ?evs True)" by (simp add: cycle_of_def)
  have 3: "collect (EVENT_TYPES None) (lastEventId (seen ''4'')) ?evs = []"
    by (simp add: EVENT_TYPES_default seen_def item_def)
  have 4: "pollGitHub (EVENT_TYPES None) (cycle_of ?evs True) (seen ''4'') = (seen ''5'', [Save ''5''])"
    unfolding pollGitHub_nonempty [OF 1 2] 3
    by (simp add: dispatch_def seen_def item_def)
  have 5: "''WatchEvent'' \<in> set RENDERED_TYPES" by (simp add: RENDERED_TYPES_def)
  have 6: "''WatchEvent'' \<notin> set (EVENT_TYPES None)" by (simp add: EVENT_TYPES_default)
  show ?thesis using 4 5 6 EVENT_TYPES_default by simp
qed

section \<open>Suppression and throttling\<close>

lemma parseInt_sample: "parseInt ''1700000000'' = Num 1700000000"
  by (simp add: parseInt_def number_def is_white_def is_digit_def digit_value_def Let_def)

text \<open>
  What the fetcher does when the reset time is a date. The request for the feed is
  \<open>c\<close>, a compare request is \<open>d\<close>, the gate is at \<open>rl\<close>. The result is \<^verbatim>\<open>null\<close>, with no
  request made and the gate unchanged, when the gate suppresses the call. It is
  \<^verbatim>\<open>null\<close> when the response has status 403 or 429 and the reset time is a date: the
  gate is then set to 1000 times the number read from the reset header, or to the
  clock plus 60000 when the header is absent or empty. Any other status outside 200 to
  299 raises. The result is \<^verbatim>\<open>null\<close> in no other case. The compare request does the same,
  with the empty list in place of \<^verbatim>\<open>null\<close>.
\<close>

lemma fetch_suppression:
  "(suppressed rl c \<longrightarrow> fetchEvents rl c = (Inr None, rl, [])) \<and>
   (\<not> suppressed rl c \<and> answer c = Responded r \<and> throttled r \<and>
      valid_date (reset_time r (now_reply c))
    \<longrightarrow> fst (fetchEvents rl c) = Inr None \<and>
        fst (snd (fetchEvents rl c)) =
          (case reset r of
             None \<Rightarrow> number (now_reply c + 60000)
           | Some hint \<Rightarrow>
               if hint = [] then number (now_reply c + 60000) else times1000 (parseInt hint))) \<and>
   (\<not> suppressed rl c \<and> answer c = Responded r \<and> \<not> throttled r \<and> \<not> ok r
    \<longrightarrow> fst (fetchEvents rl c) = Inl (GitHubApiError (status r))) \<and>
   (fst (fetchEvents rl c) = Inr None
    \<longrightarrow> suppressed rl c \<or> (\<exists>r. answer c = Responded r \<and> throttled r)) \<and>
   (suppressed rl d \<longrightarrow> fetchCommits rl d = (Inr [], rl, [])) \<and>
   (\<not> suppressed rl d \<and> answer d = Responded q \<and> throttled q \<and>
      valid_date (reset_time q (now_reply d))
    \<longrightarrow> fst (fetchCommits rl d) = Inr [] \<and>
        fst (snd (fetchCommits rl d)) = reset_time q (now_reply d)) \<and>
   (\<not> suppressed rl d \<and> answer d = Responded q \<and> \<not> throttled q \<and> \<not> ok q
    \<longrightarrow> fst (fetchCommits rl d) = Inl (GitHubApiError (status q)))"
proof (intro conjI impI)
  assume "suppressed rl c"
  then show "fetchEvents rl c = (Inr None, rl, [])"
    by (simp add: fetchEvents_def fetchGitHub_suppressed)
next
  assume a: "\<not> suppressed rl c \<and> answer c = Responded r \<and> throttled r \<and>
      valid_date (reset_time r (now_reply c))"
  then have v: "fetchGitHub rl c =
      (Inr None, reset_time r (now_reply c), [Log (RateLimitedUntil (reset_time r (now_reply c)))])"
    using fetchGitHub_throttled [of rl c r] by simp
  show "fst (fetchEvents rl c) = Inr None"
    by (simp add: fetchEvents_def v)
  show "fst (snd (fetchEvents rl c)) =
          (case reset r of
             None \<Rightarrow> number (now_reply c + 60000)
           | Some hint \<Rightarrow>
               if hint = [] then number (now_reply c + 60000) else times1000 (parseInt hint))"
    by (simp add: fetchEvents_def v reset_time_def)
next
  assume "\<not> suppressed rl c \<and> answer c = Responded r \<and> \<not> throttled r \<and> \<not> ok r"
  then show "fst (fetchEvents rl c) = Inl (GitHubApiError (status r))"
    using fetchGitHub_status [of rl c r] by (simp add: fetchEvents_def)
next
  assume "fst (fetchEvents rl c) = Inr None"
  then show "suppressed rl c \<or> (\<exists>r. answer c = Responded r \<and> throttled r)"
    using fetchGitHub_null [of rl c] by (simp add: fetchEvents_def)
next
  assume "suppressed rl d"
  then show "fetchCommits rl d = (Inr [], rl, [])"
    by (simp add: fetchCommits_def fetchGitHub_suppressed)
next
  assume a: "\<not> suppressed rl d \<and> answer d = Responded q \<and> throttled q \<and>
      valid_date (reset_time q (now_reply d))"
  then have v: "fetchGitHub rl d =
      (Inr None, reset_time q (now_reply d), [Log (RateLimitedUntil (reset_time q (now_reply d)))])"
    using fetchGitHub_throttled [of rl d q] by simp
  show "fst (fetchCommits rl d) = Inr []"
    by (simp add: fetchCommits_def v)
  show "fst (snd (fetchCommits rl d)) = reset_time q (now_reply d)"
    by (simp add: fetchCommits_def v)
next
  assume "\<not> suppressed rl d \<and> answer d = Responded q \<and> \<not> throttled q \<and> \<not> ok q"
  then show "fst (fetchCommits rl d) = Inl (GitHubApiError (status q))"
    using fetchGitHub_status [of rl d q] by (simp add: fetchCommits_def)
qed

text \<open>The same on samples: a closed gate, a throttling status with and without a header.\<close>

lemma fetch_suppression_samples:
  "fetchEvents (Num 5000) (replied 200 None (Some [item ''5'' ''PushEvent'']))
     = (Inr None, Num 5000, []) \<and>
   fetchCommits (Num 5000) (replied 200 None (Some (Some []))) = (Inr [], Num 5000, []) \<and>
   fetchEvents (Num 0) (replied 429 (Some ''1700000000'') None)
     = (Inr None, Num 1700000000000, [Log (RateLimitedUntil (Num 1700000000000))]) \<and>
   fetchCommits (Num 0) (replied 403 None None)
     = (Inr [], Num 61001, [Log (RateLimitedUntil (Num 61001))]) \<and>
   fst (fetchEvents (Num 0) (replied 500 None None)) = Inl (GitHubApiError 500) \<and>
   fst (fetchCommits (Num 0) (replied 404 None None)) = Inl (GitHubApiError 404)"
  by (simp add: fetchEvents_def fetchCommits_def fetchGitHub_def replied_def throttled_def
      ok_def reset_time_def parseInt_sample number_def Let_def)

text \<open>
  C7, evaluated where the code departs from it. The source answers with status 429 and
  a reset header that is not a number, \<^verbatim>\<open>soon\<close>. \<^verbatim>\<open>parseInt\<close> gives \<^verbatim>\<open>NaN\<close>, the gate is set
  to \<^verbatim>\<open>NaN\<close>, and the log line of the throttled branch raises on
  \<^verbatim>\<open>new Date(NaN).toISOString()\<close> before \<^verbatim>\<open>return null\<close> is reached. So the fetch of the
  feed raises instead of returning \<^verbatim>\<open>null\<close>, and so does the fetch of commits instead
  of returning the empty list; the cycle logs a poll error, and the gate, being
  \<^verbatim>\<open>NaN\<close>, suppresses nothing afterwards. A header beyond the range of dates does the
  same with the gate left closed for good.
\<close>

theorem throttled_bad_hint_raises:
  "fetchEvents (Num 0) (replied 429 (Some ''soon'') None) = (Inl InvalidTimeValue, NaN, []) \<and>
   fetchCommits (Num 0) (replied 429 (Some ''soon'') None) = (Inl InvalidTimeValue, NaN, []) \<and>
   pollGitHub (EVENT_TYPES None) throttled_soon (seen ''3'')
     = (\<lparr>lastEventId = Some ''3'', rateLimitReset = NaN\<rparr>, [Log (PollError InvalidTimeValue)]) \<and>
   \<not> suppressed NaN (feed throttled_soon) \<and>
   fetchEvents (Num 0) (replied 429 (Some ''99999999999999'') None)
     = (Inl InvalidTimeValue, Large True, []) \<and>
   suppressed (Large True) (feed throttled_soon)"
proof -
  have p: "parseInt ''soon'' = NaN"
    by (simp add: parseInt_def is_white_def is_digit_def digit_value_def Let_def)
  have q: "parseInt ''99999999999999'' = Num 99999999999999"
    by (simp add: parseInt_def number_def is_white_def is_digit_def digit_value_def Let_def)
  have 1: "fetchEvents (Num 0) (replied 429 (Some ''soon'') None) = (Inl InvalidTimeValue, NaN, [])"
    by (simp add: fetchEvents_def fetchGitHub_def replied_def throttled_def reset_time_def p)
  have 2: "fetchCommits (Num 0) (replied 429 (Some ''soon'') None) = (Inl InvalidTimeValue, NaN, [])"
    by (simp add: fetchCommits_def fetchGitHub_def replied_def throttled_def reset_time_def p)
  have 3: "pollGitHub (EVENT_TYPES None) throttled_soon (seen ''3'')
      = (\<lparr>lastEventId = Some ''3'', rateLimitReset = NaN\<rparr>, [Log (PollError InvalidTimeValue)])"
    by (simp add: pollGitHub_def throttled_soon_def seen_def 1)
  have 4: "\<not> suppressed NaN (feed throttled_soon)" "suppressed (Large True) (feed throttled_soon)"
    by (simp_all add: suppressed_def)
  have 5: "fetchEvents (Num 0) (replied 429 (Some ''99999999999999'') None)
      = (Inl InvalidTimeValue, Large True, [])"
    by (simp add: fetchEvents_def fetchGitHub_def replied_def throttled_def reset_time_def q
        number_def)
  show ?thesis using 1 2 3 4 5 by simp
qed

section \<open>Truncating a string\<close>

text \<open>
  C9. An absent or empty string truncates to the empty string; a string no longer than
  the limit is returned as it is; a longer one is cut to its first \<open>n - 3\<close> characters
  (none when \<open>n < 3\<close>), followed by three dots. So a string of 60 characters truncated
  to 50 has 50 characters: its first 47, then the three dots.
\<close>

theorem truncate_rule:
  "truncate None n = [] \<and>
   truncate (Some s) n =
     (if s = [] then []
      else if int (length s) \<le> n then s
      else take (nat (n - 3)) s @ ''...'') \<and>
   (length s = 60 \<longrightarrow>
      length (truncate (Some s) 50) = 50 \<and>
      take 47 (truncate (Some s) 50) = take 47 s \<and>
      drop 47 (truncate (Some s) 50) = ''...'')"
  by (auto simp: truncate_def substring_def clamp_index_def Let_def)

theorem truncate_rule_witness:
  "length ''abcdefghijklmnopqrstuvwxyz0123456789ABCDEFGHIJKLMNOPQRSTUVWX'' = 60 \<and>
   truncate (Some ''abcdefghijklmnopqrstuvwxyz0123456789ABCDEFGHIJKLMNOPQRSTUVWX'') 50
     = ''abcdefghijklmnopqrstuvwxyz0123456789ABCDEFGHIJK...'' \<and>
   length (truncate (Some ''abcdefghijklmnopqrstuvwxyz0123456789ABCDEFGHIJKLMNOPQRSTUVWX'') 50) = 50"
proof -
  let ?s = "''abcdefghijklmnopqrstuvwxyz0123456789ABCDEFGHIJKLMNOPQRSTUVWX''"
  have 1: "length ?s = 60" by simp
  have 2: "truncate (Some ?s) 50 = ''abcdefghijklmnopqrstuvwxyz0123456789ABCDEFGHIJK...''"
    using truncate_rule [of 50 ?s] by simp
  have 3: "length (truncate (Some ?s) 50) = 50"
    using truncate_rule [of 50 ?s] 1 by blast
  show ?thesis using 1 2 3 by blast
qed

section \<open>The stored id over a run of cycles\<close>

lemma pollGitHub_lastEventId:
  "lastEventId (fst (pollGitHub tys env s)) = lastEventId s \<or>
   (\<exists>e es. remote env = e # es \<and> lastEventId (fst (pollGitHub tys env s)) = Some (event_id e))"
proof (cases "fetchEvents (rateLimitReset s) (feed env)")
  case (fields res rl t)
  show ?thesis
  proof (cases res)
    case (Inl err)
    with fields show ?thesis by (simp add: pollGitHub_def)
  next
    case (Inr v)
    show ?thesis
    proof (cases v)
      case None
      with Inr fields show ?thesis by (simp add: pollGitHub_def)
    next
      case (Some events)
      have f: "fst (fetchEvents (rateLimitReset s) (feed env)) = Inr (Some events)"
        using fields Inr Some by simp
      then have r: "remote env = events"
        using fetchGitHub_body [of "rateLimitReset s" "feed env" events]
        by (auto simp: fetchEvents_def remote_def)
      show ?thesis
      proof (cases "channel env")
        case False
        with fields Inr Some show ?thesis by (simp add: pollGitHub_def)
      next
        case True
        show ?thesis
        proof (cases events)
          case Nil
          then show ?thesis
            unfolding pollGitHub_found [OF f True] by (simp add: case_prod_beta)
        next
          case (Cons e es)
          then show ?thesis
            using pollGitHub_nonempty [of s env e es tys] f True r by simp
        qed
      qed
    qed
  qed
qed

lemma pollGitHub_lastEventId_exact:
  "lastEventId (fst (pollGitHub tys env s)) =
     (case fst (fetchEvents (rateLimitReset s) (feed env)) of
        Inr (Some (e # es)) \<Rightarrow> if channel env then Some (event_id e) else lastEventId s
      | _ \<Rightarrow> lastEventId s)"
proof (cases "fetchEvents (rateLimitReset s) (feed env)")
  case (fields res rl t)
  show ?thesis
  proof (cases res)
    case (Inl err)
    with fields show ?thesis by (simp add: pollGitHub_def)
  next
    case (Inr v)
    show ?thesis
    proof (cases v)
      case None
      with Inr fields show ?thesis by (simp add: pollGitHub_def)
    next
      case (Some events)
      have f: "fst (fetchEvents (rateLimitReset s) (feed env)) = Inr (Some events)"
        using fields Inr Some by simp
      show ?thesis
      proof (cases "channel env")
        case False
        with fields Inr Some show ?thesis
          by (simp add: pollGitHub_def split: list.splits)
      next
        case True
        show ?thesis
        proof (cases events)
          case Nil
          then show ?thesis
            unfolding pollGitHub_found [OF f True] f by (simp add: case_prod_beta)
        next
          case (Cons e es)
          then show ?thesis
            using pollGitHub_nonempty [of s env e es tys] f True by simp
        qed
      qed
    qed
  qed
qed

lemma length_run: "length (run tys envs s) = length envs"
  by (induction envs arbitrary: s) (simp_all add: Let_def)

lemma run_nth:
  "i < length envs \<Longrightarrow>
   run tys envs s ! i = fst (pollGitHub tys (envs ! i) ((s # run tys envs s) ! i))"
proof (induction envs arbitrary: s i)
  case Nil
  then show ?case by simp
next
  case (Cons env envs)
  show ?case
  proof (cases i)
    case 0
    then show ?thesis by (simp add: Let_def)
  next
    case (Suc j)
    then have "j < length envs" using Cons.prems by simp
    from Cons.IH [OF this, of "fst (pollGitHub tys env s)"] Suc show ?thesis
      by (simp add: Let_def)
  qed
qed

lemma run_never_null:
  "lastEventId s = Some a \<Longrightarrow> \<exists>bs. map lastEventId (run tys envs s) = map Some bs"
proof (induction envs arbitrary: s a)
  case Nil
  then show ?case by simp
next
  case (Cons env envs)
  obtain b where b: "lastEventId (fst (pollGitHub tys env s)) = Some b"
    using pollGitHub_lastEventId [of tys env s] Cons.prems by auto
  from Cons.IH [OF b] obtain bs where
    "map lastEventId (run tys envs (fst (pollGitHub tys env s))) = map Some bs"
    by blast
  then have "map lastEventId (run tys (env # envs) s) = map Some (b # bs)"
    using b by (simp add: Let_def)
  then show ?case by blast
qed

lemma run_ids_sorted:
  assumes "lastEventId s = Some a"
    and "sorted (map rk (a # heads envs))"
  shows "\<exists>bs. map lastEventId (run tys envs s) = map Some bs \<and>
              sorted (map rk (a # bs)) \<and> set bs \<subseteq> insert a (set (heads envs))"
  using assms
proof (induction envs arbitrary: s a)
  case Nil
  then show ?case by simp
next
  case (Cons env envs)
  let ?s1 = "fst (pollGitHub tys env s)"
  consider (same) "lastEventId ?s1 = Some a"
    | (moved) e es where "remote env = e # es" "lastEventId ?s1 = Some (event_id e)"
    using pollGitHub_lastEventId [of tys env s] Cons.prems(1) by auto
  then show ?case
  proof cases
    case same
    have "sorted (map rk (a # heads envs))"
      using Cons.prems(2) by (cases "remote env") auto
    from Cons.IH [OF same this] obtain bs where
      bs: "map lastEventId (run tys envs ?s1) = map Some bs" "sorted (map rk (a # bs))"
        "set bs \<subseteq> insert a (set (heads envs))"
      by blast
    have "map lastEventId (run tys (env # envs) s) = map Some (a # bs)"
      using same bs(1) by (simp add: Let_def)
    moreover have "sorted (map rk (a # a # bs))"
      using bs(2) by simp
    moreover have "set (a # bs) \<subseteq> insert a (set (heads (env # envs)))"
      using bs(3) by (cases "remote env") auto
    ultimately show ?thesis by blast
  next
    case moved
    have h: "heads (env # envs) = event_id e # heads envs"
      using moved(1) by simp
    then have le: "rk a \<le> rk (event_id e)" and so: "sorted (map rk (event_id e # heads envs))"
      using Cons.prems(2) by simp_all
    from Cons.IH [OF moved(2) so] obtain bs where
      bs: "map lastEventId (run tys envs ?s1) = map Some bs" "sorted (map rk (event_id e # bs))"
        "set bs \<subseteq> insert (event_id e) (set (heads envs))"
      by blast
    have "map lastEventId (run tys (env # envs) s) = map Some (event_id e # bs)"
      using moved(2) bs(1) by (simp add: Let_def)
    moreover have "sorted (map rk (a # event_id e # bs))"
      using bs(2) le by auto
    moreover have "set (event_id e # bs) \<subseteq> insert a (set (heads (env # envs)))"
      using bs(3) h by auto
    ultimately show ?thesis by blast
  qed
qed

text \<open>
  C8, as stated, at a concrete run of three cycles from the stored id 4. The first
  fetches \<open>[5, 4]\<close> and stores 5. The second fetches \<open>[4]\<close>, item 5 having left the
  feed, and stores 4: the id of an item older than 5 by the order of the first list.
  The third fetches \<open>[5, 4]\<close> again but does not find the channel, and leaves 4
  stored although it has seen 5.
\<close>

theorem stored_id_counterexample:
  "map lastEventId
     (run (EVENT_TYPES None)
        [cycle_of [item ''5'' ''PushEvent'', item ''4'' ''PushEvent''] True,
         cycle_of [item ''4'' ''PushEvent''] True,
         cycle_of [item ''5'' ''PushEvent'', item ''4'' ''PushEvent''] False]
        (seen ''4''))
     = [Some ''5'', Some ''4'', Some ''4'']"
proof -
  have post: "postEvent rl plain_post (item i ''PushEvent'')
      = (rl, [Send (item i ''PushEvent'') [], Log (Posted ''PushEvent'' ''octo/repo'')])" for rl i
    by (simp add: postEvent_def item_def needs_backfill_def send_def plain_post_def)
  have found: "channel (cycle_of events True)" "posts (cycle_of events True) k = plain_post"
    for events k
    by (simp_all add: cycle_of_def)
  have fetch: "fst (fetchEvents (rateLimitReset (seen i)) (feed (cycle_of events b)))
      = Inr (Some events)" for i events b
    by (simp add: seen_def fetch_sample)
  have ident: "event_id (item i ty) = i" for i ty
    by (simp add: item_def)
  have c1: "collect (EVENT_TYPES None) (lastEventId (seen ''4''))
      [item ''5'' ''PushEvent'', item ''4'' ''PushEvent''] = [item ''5'' ''PushEvent'']"
    by (simp add: EVENT_TYPES_default seen_def item_def)
  have c2: "collect (EVENT_TYPES None) (lastEventId (seen ''5'')) [item ''4'' ''PushEvent'']
      = [item ''4'' ''PushEvent'']"
    by (simp add: EVENT_TYPES_default seen_def item_def)
  have 1: "fst (pollGitHub (EVENT_TYPES None)
      (cycle_of [item ''5'' ''PushEvent'', item ''4'' ''PushEvent''] True) (seen ''4'')) = seen ''5''"
    unfolding pollGitHub_nonempty [OF fetch found(1)] c1
    by (simp add: dispatch_def post found seen_def ident)
  have 2: "fst (pollGitHub (EVENT_TYPES None) (cycle_of [item ''4'' ''PushEvent''] True) (seen ''5''))
      = seen ''4''"
    unfolding pollGitHub_nonempty [OF fetch found(1)] c2
    by (simp add: dispatch_def post found seen_def ident)
  have 3: "fst (pollGitHub (EVENT_TYPES None)
      (cycle_of [item ''5'' ''PushEvent'', item ''4'' ''PushEvent''] False) (seen ''4'')) = seen ''4''"
    by (simp add: pollGitHub_def fetchEvents_def fetchGitHub_def cycle_of_def replied_def
        throttled_def ok_def seen_def)
  show ?thesis
    by (simp add: 1 2 3 Let_def) (simp add: seen_def)
qed

text \<open>
  C8, amended. Over any run of cycles from a stored id: each cycle sets the stored id
  to the id of the first item of the list it fetched when that list is not empty and
  the channel is found, and leaves it as it was in every other case (fetch suppressed,
  throttled or failed, empty list, channel not found), with no comparison of the two
  ids; it is never null again. So whenever the first items of the successive
  non-empty lists the source returns are in non-decreasing order of recency, starting
  from the stored id (\<open>rk\<close> ranks ids by recency), the stored id never moves to an older
  item.
\<close>

theorem stored_id_over_run:
  assumes "lastEventId s = Some a"
  shows "(\<forall>i<length envs.
            lastEventId (run tys envs s ! i) =
              (case fst (fetchEvents (rateLimitReset ((s # run tys envs s) ! i)) (feed (envs ! i))) of
                 Inr (Some (e # es)) \<Rightarrow>
                   if channel (envs ! i) then Some (event_id e)
                   else lastEventId ((s # run tys envs s) ! i)
               | _ \<Rightarrow> lastEventId ((s # run tys envs s) ! i))) \<and>
         (\<exists>bs. map lastEventId (run tys envs s) = map Some bs \<and>
               (sorted (map rk (a # heads envs)) \<longrightarrow> sorted (map rk (a # bs))))"
proof (intro conjI allI impI)
  fix i
  assume "i < length envs"
  then show "lastEventId (run tys envs s ! i) =
              (case fst (fetchEvents (rateLimitReset ((s # run tys envs s) ! i)) (feed (envs ! i))) of
                 Inr (Some (e # es)) \<Rightarrow>
                   if channel (envs ! i) then Some (event_id e)
                   else lastEventId ((s # run tys envs s) ! i)
               | _ \<Rightarrow> lastEventId ((s # run tys envs s) ! i))"
    using run_nth [of i envs tys s]
      pollGitHub_lastEventId_exact [of tys "envs ! i" "(s # run tys envs s) ! i"]
    by simp
next
  obtain bs where bs: "map lastEventId (run tys envs s) = map Some bs"
    using run_never_null [OF assms] by blast
  have "sorted (map rk (a # bs))" if so: "sorted (map rk (a # heads envs))"
  proof -
    obtain cs where cs: "map lastEventId (run tys envs s) = map Some cs"
        "sorted (map rk (a # cs))"
      using run_ids_sorted [OF assms so, of tys] by blast
    then have "map Some cs = map Some bs" using bs by simp
    then have "cs = bs" by simp
    with cs(2) show ?thesis by simp
  qed
  with bs show "\<exists>bs. map lastEventId (run tys envs s) = map Some bs \<and>
               (sorted (map rk (a # heads envs)) \<longrightarrow> sorted (map rk (a # bs)))"
    by blast
qed

theorem stored_id_over_run_witness:
  "lastEventId (seen ''4'') = Some ''4'' \<and>
   sorted (map (\<lambda>i. nat (digits_value 10 0 i))
     (''4'' # heads [cycle_of [item ''5'' ''PushEvent'', item ''4'' ''PushEvent''] True,
                    cycle_of [item ''7'' ''PushEvent'', item ''5'' ''PushEvent''] False,
                    cycle_of [item ''7'' ''PushEvent'', item ''5'' ''PushEvent''] True])) \<and>
   lastEventId
     (run (EVENT_TYPES None)
        [cycle_of [item ''5'' ''PushEvent'', item ''4'' ''PushEvent''] True,
         cycle_of [item ''7'' ''PushEvent'', item ''5'' ''PushEvent''] False,
         cycle_of [item ''7'' ''PushEvent'', item ''5'' ''PushEvent''] True]
        (seen ''4'') ! 0) = Some ''5'' \<and>
   (\<exists>bs. map lastEventId
           (run (EVENT_TYPES None)
              [cycle_of [item ''5'' ''PushEvent'', item ''4'' ''PushEvent''] True,
               cycle_of [item ''7'' ''PushEvent'', item ''5'' ''PushEvent''] False,
               cycle_of [item ''7'' ''PushEvent'', item ''5'' ''PushEvent''] True]
              (seen ''4'')) = map Some bs \<and>
         sorted (map (\<lambda>i. nat (digits_value 10 0 i)) (''4'' # bs)))"
proof -
  let ?envs = "[cycle_of [item ''5'' ''PushEvent'', item ''4'' ''PushEvent''] True,
                cycle_of [item ''7'' ''PushEvent'', item ''5'' ''PushEvent''] False,
                cycle_of [item ''7'' ''PushEvent'', item ''5'' ''PushEvent''] True]"
  let ?rk = "\<lambda>i. nat (digits_value 10 0 i)"
  let ?run = "run (EVENT_TYPES None) ?envs (seen ''4'')"
  have 1: "lastEventId (seen ''4'') = Some ''4''" by (simp add: seen_def)
  have h: "heads ?envs = [''5'', ''7'', ''7'']"
    by (simp add: remote_def cycle_of_def replied_def item_def)
  have 2: "sorted (map ?rk (''4'' # heads ?envs))"
    unfolding h by (simp add: digit_value_def)
  note t = stored_id_over_run [OF 1, of ?envs "EVENT_TYPES None" ?rk]
  have 0: "(0::nat) < length ?envs" by simp
  have f: "fst (fetchEvents (rateLimitReset ((seen ''4'' # ?run) ! 0)) (feed (?envs ! 0)))
      = Inr (Some (item ''5'' ''PushEvent'' # [item ''4'' ''PushEvent'']))"
    by (simp add: seen_def fetch_sample)
  have a: "lastEventId (?run ! 0) = Some ''5''"
    using t [THEN conjunct1, rule_format, OF 0] unfolding f
    by (simp add: cycle_of_def item_def)
  have b: "\<exists>bs. map lastEventId ?run = map Some bs \<and> sorted (map ?rk (''4'' # bs))"
    using t [THEN conjunct2] 2 by blast
  show ?thesis
    using 1 2 a b by blast
qed

end
